theory Spec2Isabelle
  imports Complex_Main "HOL-Library.Sublist" "HOL-Library.AList"
begin

section \<open>Element trees\<close>

text \<open>
  The plugin reads a brush preset through \<^verbatim>\<open>xml.etree.ElementTree\<close>. An element has a
  tag, an attribute dictionary (insertion ordered), an optional text and a list of
  children. Only these four parts are touched by the plugin.
\<close>

datatype xml = Element (tag: string) (attrib: "(string \<times> string) list")
  (etext: "string option") (children: "xml list")

type_synonym path = "nat list"

text \<open>
  Python hands out references to nodes of a tree and mutates them in place. A reference
  into a tree is modelled by the path of child indices leading from the root to the node.
\<close>

fun subelement :: "xml \<Rightarrow> path \<Rightarrow> xml option" where
  "subelement e [] = Some e"
| "subelement e (i # p) =
     (if i < length (children e) then subelement (children e ! i) p else None)"

text \<open>\<^verbatim>\<open>Element.iter()\<close>: the element itself and all its descendants, in document order.\<close>

fun iter :: "xml \<Rightarrow> (path \<times> xml) list"
  and iter_list :: "nat \<Rightarrow> xml list \<Rightarrow> (path \<times> xml) list" where
  "iter (Element t a x cs) = ([], Element t a x cs) # iter_list 0 cs"
| "iter_list i [] = []"
| "iter_list i (c # cs) = map (\<lambda>(p, e). (i # p, e)) (iter c) @ iter_list (Suc i) cs"

text \<open>\<^verbatim>\<open>Element.get(key)\<close> and \<^verbatim>\<open>Element.set(key, value)\<close> on the attribute dictionary.\<close>

definition get_attr :: "xml \<Rightarrow> string \<Rightarrow> string option" where
  "get_attr e k = map_of (attrib e) k"

definition set_attr :: "string \<Rightarrow> string \<Rightarrow> xml \<Rightarrow> xml" where
  "set_attr k v e = Element (tag e) (AList.update k v (attrib e)) (etext e) (children e)"

text \<open>The direct children of an element with their indices, as paths of length one.\<close>

definition child_items :: "xml \<Rightarrow> (path \<times> xml) list" where
  "child_items e = map (\<lambda>(i, c). ([i], c)) (enumerate 0 (children e))"

text \<open>
  \<^verbatim>\<open>_find_mask_generator\<close> (lines 485-496): first a direct child tagged
  \<^verbatim>\<open>MaskGenerator\<close> (\<^verbatim>\<open>find('MaskGenerator')\<close>), then the first proper descendant so
  tagged (\<^verbatim>\<open>find('.//MaskGenerator')\<close>), then the first element of \<^verbatim>\<open>iter()\<close>, the root
  included, whose tag ends with \<^verbatim>\<open>MaskGenerator\<close>. The result is the node found, together with
  its reference, or \<open>None\<close>.
\<close>

definition has_tag :: "string \<Rightarrow> path \<times> xml \<Rightarrow> bool" where
  "has_tag t pe = (tag (snd pe) = t)"

definition tag_endswith :: "string \<Rightarrow> path \<times> xml \<Rightarrow> bool" where
  "tag_endswith t pe = suffix t (tag (snd pe))"

definition find_mask_generator :: "xml \<Rightarrow> (path \<times> xml) option" where
  "find_mask_generator brushdef =
     (case List.find (has_tag ''MaskGenerator'') (child_items brushdef) of
        Some brushopt \<Rightarrow> Some brushopt
      | None \<Rightarrow>
     (case List.find (has_tag ''MaskGenerator'') (iter_list 0 (children brushdef)) of
        Some brushopt \<Rightarrow> Some brushopt
      | None \<Rightarrow> List.find (tag_endswith ''MaskGenerator'') (iter brushdef)))"


text \<open>
  Replacing the node a reference points to. A path that leaves the tree changes nothing
  (the plugin only uses references it has just obtained from the same tree).
\<close>

fun update_at :: "path \<Rightarrow> (xml \<Rightarrow> xml) \<Rightarrow> xml \<Rightarrow> xml" where
  "update_at [] f e = f e"
| "update_at (i # p) f e =
     Element (tag e) (attrib e) (etext e)
       (if i < length (children e)
        then (children e)[i := update_at p f (children e ! i)] else children e)"

definition set_text :: "string option \<Rightarrow> xml \<Rightarrow> xml" where
  "set_text x e = Element (tag e) (attrib e) x (children e)"

text \<open>\<^verbatim>\<open>Element.findall(tag)\<close> with a plain tag: the direct children carrying it.\<close>

definition findall :: "string \<Rightarrow> xml \<Rightarrow> (path \<times> xml) list" where
  "findall t e = filter (has_tag t) (child_items e)"

section \<open>Python values\<close>

text \<open>
  A Python \<^verbatim>\<open>float\<close> is an IEEE 754 binary64 number: a finite value (here the rational
  it denotes), an infinity or a NaN. The sign of zero is not represented; no operation of
  the plugin distinguishes -0.0 from 0.0. A Python \<^verbatim>\<open>int\<close> that is compared with floats
  (Python compares the two by value) is represented by the finite number it denotes.
\<close>

datatype pyfloat = Finite rat | PosInf | NegInf | NaN

datatype pyexn = ParseError | ValueError | OverflowError | ZeroDivisionError
  | TypeError | AttributeError

text \<open>The comparisons \<^verbatim>\<open><\<close>, \<^verbatim>\<open>==\<close> and \<^verbatim>\<open><=\<close>; every comparison with NaN is false.\<close>

fun flt :: "pyfloat \<Rightarrow> pyfloat \<Rightarrow> bool" where
  "flt (Finite a) (Finite b) = (a < b)"
| "flt (Finite a) PosInf = True"
| "flt NegInf (Finite b) = True"
| "flt NegInf PosInf = True"
| "flt a b = False"

definition feq :: "pyfloat \<Rightarrow> pyfloat \<Rightarrow> bool" where
  "feq a b = (a = b \<and> a \<noteq> NaN)"

definition fle :: "pyfloat \<Rightarrow> pyfloat \<Rightarrow> bool" where
  "fle a b = (flt a b \<or> feq a b)"

text \<open>
  The builtins \<^verbatim>\<open>min(a, b)\<close> and \<^verbatim>\<open>max(a, b)\<close> keep the first argument unless the second
  is strictly smaller (larger).
\<close>

definition py_min :: "pyfloat \<Rightarrow> pyfloat \<Rightarrow> pyfloat" where
  "py_min a b = (if flt b a then b else a)"

definition py_max :: "pyfloat \<Rightarrow> pyfloat \<Rightarrow> pyfloat" where
  "py_max a b = (if flt a b then b else a)"

text \<open>\<^verbatim>\<open>x != y\<close> where \<^verbatim>\<open>x\<close> may be \<^verbatim>\<open>None\<close> and \<^verbatim>\<open>y\<close> is a number.\<close>

definition py_ne :: "pyfloat option \<Rightarrow> pyfloat \<Rightarrow> bool" where
  "py_ne x y = (case x of None \<Rightarrow> True | Some a \<Rightarrow> \<not> feq a y)"

text \<open>\<^verbatim>\<open>int(x)\<close> truncates towards zero; \<^verbatim>\<open>round(x)\<close> rounds half to even. Both raise on
  infinities and NaN.\<close>

definition trunc :: "rat \<Rightarrow> int" where
  "trunc r = (if 0 \<le> r then \<lfloor>r\<rfloor> else \<lceil>r\<rceil>)"

definition round_half_even :: "rat \<Rightarrow> int" where
  "round_half_even x =
     (let f = \<lfloor>x\<rfloor>; d = x - of_int f in
      if d < 1 / 2 then f else if 1 / 2 < d then f + 1 else if even f then f else f + 1)"

fun py_int :: "pyfloat \<Rightarrow> pyexn + int" where
  "py_int (Finite r) = Inr (trunc r)"
| "py_int NaN = Inl ValueError"
| "py_int x = Inl OverflowError"

fun py_round :: "pyfloat \<Rightarrow> pyexn + int" where
  "py_round (Finite r) = Inr (round_half_even r)"
| "py_round NaN = Inl ValueError"
| "py_round x = Inl OverflowError"

subsection \<open>Rounding to binary64\<close>

text \<open>
  The result of an arithmetic operation is the exact result rounded to the nearest
  binary64 number, ties to the even significand: 53 significant bits, the unit in the
  last place never below \<open>pow2 (- 1074)\<close>, and an infinity when the rounded magnitude
  reaches \<open>pow2 1024\<close>.
\<close>

fun bit_length :: "nat \<Rightarrow> nat" where
  "bit_length n = (if n = 0 then 0 else Suc (bit_length (n div 2)))"

declare bit_length.simps [simp del]

definition pow2 :: "int \<Rightarrow> rat" where
  "pow2 e = (if 0 \<le> e then 2 ^ nat e else 1 / 2 ^ nat (- e))"

text \<open>The binary exponent \<open>\<lfloor>log\<^sub>2 x\<rfloor>\<close> of a positive rational.\<close>

definition ilog2 :: "rat \<Rightarrow> int" where
  "ilog2 x =
     (if 1 \<le> x then int (bit_length (nat \<lfloor>x\<rfloor>)) - 1
      else - int (bit_length (nat (\<lceil>1 / x\<rceil> - 1))))"

definition round_double :: "rat \<Rightarrow> pyfloat" where
  "round_double x =
     (if x = 0 then Finite 0
      else let a = \<bar>x\<bar>;
               e = max (ilog2 a) (- 1022);
               ulp = pow2 (e - 52);
               r = of_int (round_half_even (a / ulp)) * ulp
           in if pow2 1024 \<le> r then (if 0 < x then PosInf else NegInf)
              else Finite (if 0 < x then r else - r))"

subsection \<open>Float arithmetic\<close>

definition fsgn :: "pyfloat \<Rightarrow> int" where
  "fsgn a = (case a of Finite x \<Rightarrow> (if x = 0 then 0 else if 0 < x then 1 else - 1)
     | PosInf \<Rightarrow> 1 | NegInf \<Rightarrow> - 1 | NaN \<Rightarrow> 0)"

definition inf_of_sign :: "int \<Rightarrow> pyfloat" where
  "inf_of_sign s = (if 0 < s then PosInf else NegInf)"

definition fneg :: "pyfloat \<Rightarrow> pyfloat" where
  "fneg a = (case a of Finite x \<Rightarrow> Finite (- x) | PosInf \<Rightarrow> NegInf | NegInf \<Rightarrow> PosInf
     | NaN \<Rightarrow> NaN)"

definition fadd :: "pyfloat \<Rightarrow> pyfloat \<Rightarrow> pyfloat" where
  "fadd a b =
     (case (a, b) of
        (Finite x, Finite y) \<Rightarrow> round_double (x + y)
      | (Finite x, _) \<Rightarrow> b
      | (_, Finite y) \<Rightarrow> a
      | _ \<Rightarrow> (if a = NaN \<or> b = NaN \<or> a \<noteq> b then NaN else a))"

definition fsub :: "pyfloat \<Rightarrow> pyfloat \<Rightarrow> pyfloat" where
  "fsub a b = fadd a (fneg b)"

definition fmul :: "pyfloat \<Rightarrow> pyfloat \<Rightarrow> pyfloat" where
  "fmul a b =
     (case (a, b) of
        (Finite x, Finite y) \<Rightarrow> round_double (x * y)
      | _ \<Rightarrow> (if a = NaN \<or> b = NaN \<or> fsgn a * fsgn b = 0 then NaN
              else inf_of_sign (fsgn a * fsgn b)))"

text \<open>Float division raises \<^verbatim>\<open>ZeroDivisionError\<close> on a zero divisor, whatever the dividend.\<close>

definition fdiv :: "pyfloat \<Rightarrow> pyfloat \<Rightarrow> pyexn + pyfloat" where
  "fdiv a b =
     (if b = Finite 0 then Inl ZeroDivisionError
      else Inr (case (a, b) of
        (Finite x, Finite y) \<Rightarrow> round_double (x / y)
      | (Finite x, _) \<Rightarrow> (if b = NaN then NaN else Finite 0)
      | (_, Finite y) \<Rightarrow> (if a = NaN then NaN else inf_of_sign (fsgn a * fsgn b))
      | _ \<Rightarrow> NaN))"

text \<open>
  True division of two Python ints is the correctly rounded quotient; the conversion of an
  int to a float (implicit in \<^verbatim>\<open>int * float\<close>) is the nearest float. Both raise
  \<^verbatim>\<open>OverflowError\<close> when the result is beyond the floats.
\<close>

definition int_to_float :: "int \<Rightarrow> pyexn + pyfloat" where
  "int_to_float n =
     (case round_double (of_int n) of Finite r \<Rightarrow> Inr (Finite r) | _ \<Rightarrow> Inl OverflowError)"

definition int_truediv :: "int \<Rightarrow> int \<Rightarrow> pyexn + pyfloat" where
  "int_truediv a b =
     (if b = 0 then Inl ZeroDivisionError
      else case round_double (of_int a / of_int b) of
             Finite r \<Rightarrow> Inr (Finite r) | _ \<Rightarrow> Inl OverflowError)"

text \<open>
  A \<^verbatim>\<open>for\<close> loop whose body either continues (\<open>Inr None\<close>), returns or breaks with a
  result (\<open>Inr (Some r)\<close>), or raises (\<open>Inl e\<close>); falling out of the loop is \<open>Inr None\<close>.
\<close>

fun first_result :: "('x \<Rightarrow> pyexn + 'r option) \<Rightarrow> 'x list \<Rightarrow> pyexn + 'r option" where
  "first_result f [] = Inr None"
| "first_result f (x # xs) =
     (case f x of
        Inl e \<Rightarrow> Inl e
      | Inr (Some r) \<Rightarrow> Inr (Some r)
      | Inr None \<Rightarrow> first_result f xs)"

text \<open>
  The library functions the plugin calls on strings are parameters of the model:
  \<^verbatim>\<open>ET.fromstring\<close> (\<open>None\<close> when it raises \<^verbatim>\<open>ParseError\<close>), \<^verbatim>\<open>ET.tostring\<close>,
  \<^verbatim>\<open>float(s)\<close> on a string (\<open>None\<close> when it raises \<^verbatim>\<open>ValueError\<close>) and \<^verbatim>\<open>str(x)\<close> on a
  float.
\<close>

record pylib =
  ET_fromstring :: "string \<Rightarrow> xml option"
  ET_tostring :: "xml \<Rightarrow> string"
  float_of_str :: "string \<Rightarrow> pyfloat option"
  str_of_float :: "pyfloat \<Rightarrow> string"


section \<open>The slider widget\<close>

text \<open>
  \<^verbatim>\<open>SliderSpinBox\<close> extends the toolkit's \<^verbatim>\<open>QDoubleSpinBox\<close>. The record holds the
  properties the plugin reads and writes: the range, the step, the value held
  (\<^verbatim>\<open>value()\<close>), the width of the widget's rectangle and the dragging flag.
\<close>

record slider =
  minimum :: pyfloat
  maximum :: pyfloat
  singleStep :: pyfloat
  held :: pyfloat
  rect_width :: int
  slider_dragging :: bool

text \<open>
  The toolkit is not part of the repository. Its documented behaviour is written out:
  \<^verbatim>\<open>setValue\<close> rounds its argument to the displayed decimals and forces it into the range;
  \<^verbatim>\<open>setRange\<close> never lets the maximum fall below the minimum and forces the held value
  into the new range; \<^verbatim>\<open>setMaximum(m)\<close> is \<^verbatim>\<open>setRange(min(minimum, m), m)\<close> on the
  rounded \<^verbatim>\<open>m\<close>. The rounding to the displayed decimals is the parameter \<open>qround\<close>.
\<close>

definition qt_bound :: "slider \<Rightarrow> pyfloat \<Rightarrow> pyfloat" where
  "qt_bound s v =
     (if flt v (minimum s) then minimum s else if flt (maximum s) v then maximum s else v)"

definition qt_setValue :: "(pyfloat \<Rightarrow> pyfloat) \<Rightarrow> slider \<Rightarrow> pyfloat \<Rightarrow> slider" where
  "qt_setValue qround s v = s\<lparr>held := qt_bound s (qround v)\<rparr>"

definition qt_setRange :: "slider \<Rightarrow> pyfloat \<Rightarrow> pyfloat \<Rightarrow> slider" where
  "qt_setRange s lo hi =
     (let s1 = s\<lparr>minimum := lo, maximum := (if flt lo hi then hi else lo)\<rparr>
      in s1\<lparr>held := qt_bound s1 (held s1)\<rparr>)"

definition qt_setMaximum :: "(pyfloat \<Rightarrow> pyfloat) \<Rightarrow> slider \<Rightarrow> pyfloat \<Rightarrow> slider" where
  "qt_setMaximum qround s m =
     (let m' = qround m in qt_setRange s (if flt (minimum s) m' then minimum s else m') m')"

text \<open>
  \<^verbatim>\<open>_updateValueFromMouse\<close> (lines 112-123); \<open>x\<close> is \<^verbatim>\<open>pos.x()\<close>. First the value handed
  to \<^verbatim>\<open>setValue\<close> (lines 114-121), then the call (line 123). Every operation that can
  raise is a branch; nothing is caught, so an exception leaves the slider as it was.
\<close>

definition mouse_ratio :: "slider \<Rightarrow> int \<Rightarrow> pyexn + pyfloat" where
  "mouse_ratio s x =
     (case int_truediv x (rect_width s) of
        Inl e \<Rightarrow> Inl e
      | Inr q \<Rightarrow> Inr (py_max (Finite 0) (py_min (Finite 1) q)))"

definition mouse_value :: "slider \<Rightarrow> int \<Rightarrow> pyexn + pyfloat" where
  "mouse_value s x =
     (case mouse_ratio s x of
        Inl e \<Rightarrow> Inl e
      | Inr ratio \<Rightarrow>
          let value_range = fsub (maximum s) (minimum s);
              new_value = fadd (minimum s) (fmul ratio value_range)
          in (case fdiv new_value (singleStep s) of
                Inl e \<Rightarrow> Inl e
              | Inr d \<Rightarrow>
                  (case py_round d of
                     Inl e \<Rightarrow> Inl e
                   | Inr steps \<Rightarrow>
                       (case int_to_float steps of
                          Inl e \<Rightarrow> Inl e
                        | Inr fsteps \<Rightarrow> Inr (fmul fsteps (singleStep s))))))"

definition updateValueFromMouse ::
  "(pyfloat \<Rightarrow> pyfloat) \<Rightarrow> slider \<Rightarrow> int \<Rightarrow> pyexn + slider" where
  "updateValueFromMouse qround s x =
     (case mouse_value s x of
        Inl e \<Rightarrow> Inl e
      | Inr new_value \<Rightarrow> Inr (qt_setValue qround s new_value))"

section \<open>The docker\<close>

text \<open>
  The active view of the host application, as far as the plugin uses it: the brush size
  it reports, the XML of the current brush preset (\<^verbatim>\<open>toXML()\<close>), and the number of
  \<^verbatim>\<open>fromXML\<close> calls made on the preset; \<^verbatim>\<open>fromXML(s)\<close> replaces the XML by \<open>s\<close>.
\<close>

record view =
  brushSize :: pyfloat
  preset_xml :: string
  fromXML_calls :: nat

datatype callback = ValidateMaxBrushSize | DoSaveConfig

text \<open>
  The attributes of \<^verbatim>\<open>TwoBrushSlidersDocker\<close> set in \<^verbatim>\<open>__init__\<close> (lines 152-194), and
  the parts of its environment its methods act on: the active view (\<open>None\<close> when
  \<^verbatim>\<open>_get_active_view()\<close> returns nothing), the callbacks handed to
  \<^verbatim>\<open>QTimer.singleShot\<close> that have not fired yet, and the values handed to \<^verbatim>\<open>json.dump\<close>
  so far.
\<close>

record docker =
  max_brush_size :: pyfloat
  last_brush_size :: "pyfloat option"
  last_hardness :: "pyfloat option"
  pending_config_save :: bool
  hardness_slider :: slider
  size_slider :: slider
  active_view :: "view option"
  timers :: "callback list"
  config_writes :: "pyfloat list"

text \<open>A method call returns, or raises; in both cases the docker is left in some state.\<close>

datatype outcome = Returned docker | Raised pyexn docker

fun state_of :: "outcome \<Rightarrow> docker" where
  "state_of (Returned d) = d"
| "state_of (Raised e d) = d"

text \<open>\<^verbatim>\<open>save_config\<close> (lines 221-225) and \<^verbatim>\<open>_do_save_config\<close> (lines 227-237). An
  \<^verbatim>\<open>IOError\<close> of the write is caught and printed; the attempt is recorded either way.\<close>

definition save_config :: "docker \<Rightarrow> docker" where
  "save_config d =
     (if \<not> pending_config_save d
      then d\<lparr>pending_config_save := True, timers := timers d @ [DoSaveConfig]\<rparr>
      else d)"

definition do_save_config :: "docker \<Rightarrow> docker" where
  "do_save_config d =
     d\<lparr>pending_config_save := False, config_writes := config_writes d @ [max_brush_size d]\<rparr>"

text \<open>\<^verbatim>\<open>on_size_slider_changed\<close> (lines 432-437), the handler of the size slider's
  \<^verbatim>\<open>valueChanged\<close> signal.\<close>

definition on_size_slider_changed :: "docker \<Rightarrow> pyfloat \<Rightarrow> docker" where
  "on_size_slider_changed d v =
     (case active_view d of
        None \<Rightarrow> d
      | Some vw \<Rightarrow> d\<lparr>active_view := Some (vw\<lparr>brushSize := v\<rparr>), last_brush_size := Some v\<rparr>)"

text \<open>
  \<^verbatim>\<open>self.size_slider.setMaximum(m)\<close>: when the held value changes, the slider emits
  \<^verbatim>\<open>valueChanged\<close> and the handler runs.
\<close>

definition size_slider_setMaximum :: "(pyfloat \<Rightarrow> pyfloat) \<Rightarrow> docker \<Rightarrow> pyfloat \<Rightarrow> docker" where
  "size_slider_setMaximum qround d m =
     (let s' = qt_setMaximum qround (size_slider d) m;
          d' = d\<lparr>size_slider := s'\<rparr>
      in if held s' = held (size_slider d) then d' else on_size_slider_changed d' (held s'))"

text \<open>\<^verbatim>\<open>_validate_max_brush_size\<close> (lines 352-373).\<close>

definition validate_max_brush_size :: "(pyfloat \<Rightarrow> pyfloat) \<Rightarrow> docker \<Rightarrow> outcome" where
  "validate_max_brush_size qround d =
     (case active_view d of
        None \<Rightarrow> Returned d
      | Some vw \<Rightarrow>
          let current_size = brushSize vw in
          if fle current_size (Finite 1000) \<and> flt (Finite 1000) (max_brush_size d)
          then Returned (save_config
                 (size_slider_setMaximum qround (d\<lparr>max_brush_size := Finite 1000\<rparr>) (Finite 1000)))
          else if flt (max_brush_size d) current_size
          then (case py_int current_size of
                  Inl e \<Rightarrow> Raised e d
                | Inr n \<Rightarrow>
                    let new_max = Finite (of_int (min 10000 (max 1000 n)))
                    in Returned (save_config
                         (size_slider_setMaximum qround (d\<lparr>max_brush_size := new_max\<rparr>) new_max)))
          else Returned d)"

text \<open>\<^verbatim>\<open>_update_size_slider\<close> (lines 390-409). Signals are blocked around \<^verbatim>\<open>setValue\<close>.\<close>

definition expand_max_size :: "(pyfloat \<Rightarrow> pyfloat) \<Rightarrow> docker \<Rightarrow> pyfloat \<Rightarrow> pyexn + docker" where
  "expand_max_size qround d bsize =
     (if flt (max_brush_size d) bsize
      then (case py_int bsize of
              Inl e \<Rightarrow> Inl e
            | Inr n \<Rightarrow>
                let new_max = Finite (of_int (min 10000 (max 100 n)))
                in if \<not> feq new_max (max_brush_size d)
                   then Inr (save_config
                          (size_slider_setMaximum qround (d\<lparr>max_brush_size := new_max\<rparr>) new_max))
                   else Inr d)
      else Inr d)"

definition update_size_slider ::
  "(pyfloat \<Rightarrow> pyfloat) \<Rightarrow> docker \<Rightarrow> pyfloat option \<Rightarrow> outcome" where
  "update_size_slider qround d bsize_opt =
     (case bsize_opt of
        None \<Rightarrow> Returned d
      | Some bsize \<Rightarrow>
          (case expand_max_size qround d bsize of
             Inl e \<Rightarrow> Raised e d
           | Inr d1 \<Rightarrow>
               let clamped_size = py_max (Finite 1) (py_min (max_brush_size d1) bsize) in
               if py_ne (last_brush_size d1) clamped_size
               then (let d2 = d1\<lparr>last_brush_size := Some clamped_size\<rparr> in
                     case py_int clamped_size of
                       Inl e \<Rightarrow> Raised e d2
                     | Inr n \<Rightarrow>
                         Returned (d2\<lparr>size_slider :=
                           qt_setValue qround (size_slider d2) (Finite (of_int n))\<rparr>))
               else Returned d1))"

text \<open>\<^verbatim>\<open>_update_hardness_slider\<close> (lines 411-423).\<close>

definition update_hardness_slider ::
  "(pyfloat \<Rightarrow> pyfloat) \<Rightarrow> docker \<Rightarrow> pyfloat option \<Rightarrow> outcome" where
  "update_hardness_slider qround d hardness_opt =
     (case hardness_opt of
        None \<Rightarrow> Returned d
      | Some hardness_value \<Rightarrow>
          (case py_int (fmul hardness_value (Finite 100)) of
             Inl e \<Rightarrow> Raised e d
           | Inr n \<Rightarrow>
               let display_value = Finite (of_int n) in
               if py_ne (last_hardness d) display_value
               then Returned (d\<lparr>last_hardness := Some display_value,
                      hardness_slider :=
                        qt_setValue qround (hardness_slider d) display_value\<rparr>)
               else Returned d))"


section \<open>Reading and writing the hardness\<close>

text \<open>Lines 473-475: the attribute \<^verbatim>\<open>hfade\<close> of the node, or \<^verbatim>\<open>vfade\<close> when there is
  no \<^verbatim>\<open>hfade\<close>.\<close>

definition fade_attr :: "xml \<Rightarrow> string option" where
  "fade_attr brushopt =
     (case get_attr brushopt ''hfade'' of
        None \<Rightarrow> get_attr brushopt ''vfade''
      | Some h \<Rightarrow> Some h)"

text \<open>
  The body of the loop of \<^verbatim>\<open>_get_brush_hardness\<close> (lines 463-478) for one \<^verbatim>\<open>param\<close>
  element, and the \<^verbatim>\<open>try\<close> block around the loop (lines 459-478).
\<close>

definition get_hardness_step :: "pylib \<Rightarrow> path \<times> xml \<Rightarrow> pyexn + pyfloat option" where
  "get_hardness_step L item =
     (let param = snd item in
      if get_attr param ''name'' = Some ''brush_definition''
      then (case etext param of
              None \<Rightarrow> Inr None
            | Some t \<Rightarrow>
                if t = [] then Inr None
                else (case ET_fromstring L t of
                        None \<Rightarrow> Inl ParseError
                      | Some brushdef \<Rightarrow>
                          if get_attr brushdef ''type'' \<noteq> Some ''auto_brush'' then Inr None
                          else (case find_mask_generator brushdef of
                                  None \<Rightarrow> Inr None
                                | Some brushopt \<Rightarrow>
                                    (case fade_attr (snd brushopt) of
                                       None \<Rightarrow> Inr None
                                     | Some hfade \<Rightarrow>
                                         (case float_of_str L hfade of
                                            None \<Rightarrow> Inl ValueError
                                          | Some f \<Rightarrow> Inr (Some f))))))
      else Inr None)"

definition get_hardness_try :: "pylib \<Rightarrow> view \<Rightarrow> pyexn + pyfloat option" where
  "get_hardness_try L vw =
     (case ET_fromstring L (preset_xml vw) of
        None \<Rightarrow> Inl ParseError
      | Some preset_tree \<Rightarrow> first_result (get_hardness_step L) (findall ''param'' preset_tree))"

text \<open>\<^verbatim>\<open>_get_brush_hardness\<close> (lines 452-483): every exception of the block is caught and
  the function then returns \<^verbatim>\<open>None\<close>.\<close>

definition get_brush_hardness :: "pylib \<Rightarrow> docker \<Rightarrow> pyfloat option" where
  "get_brush_hardness L d =
     (case active_view d of
        None \<Rightarrow> None
      | Some vw \<Rightarrow> (case get_hardness_try L vw of Inl e \<Rightarrow> None | Inr r \<Rightarrow> r))"

text \<open>
  The body of the loop of \<^verbatim>\<open>_set_brush_hardness\<close> (lines 510-529) for one \<^verbatim>\<open>param\<close>
  element: the result is the preset tree with the parameter's text replaced, when the
  loop breaks with \<^verbatim>\<open>updated = True\<close>. The argument is already a float, so
  \<^verbatim>\<open>float(value)\<close> is the value itself.
\<close>

definition set_fades :: "string \<Rightarrow> xml \<Rightarrow> xml" where
  "set_fades s brushopt = set_attr ''vfade'' s (set_attr ''hfade'' s brushopt)"

definition set_hardness_step ::
  "pylib \<Rightarrow> pyfloat \<Rightarrow> xml \<Rightarrow> path \<times> xml \<Rightarrow> pyexn + xml option" where
  "set_hardness_step L v preset_tree item =
     (let param = snd item in
      if get_attr param ''name'' = Some ''brush_definition''
      then (case etext param of
              None \<Rightarrow> Inr None
            | Some t \<Rightarrow>
                if t = [] then Inr None
                else (case ET_fromstring L t of
                        None \<Rightarrow> Inl ParseError
                      | Some brushdef \<Rightarrow>
                          if get_attr brushdef ''type'' \<noteq> Some ''auto_brush'' then Inr None
                          else (case find_mask_generator brushdef of
                                  None \<Rightarrow> Inr None
                                | Some brushopt \<Rightarrow>
                                    let clamped_value = py_max (Finite 0) (py_min (Finite 1) v);
                                        brushdef' = update_at (fst brushopt)
                                          (set_fades (str_of_float L clamped_value)) brushdef;
                                        xmlbrushdef = ET_tostring L brushdef'
                                    in Inr (Some (update_at (fst item)
                                          (set_text (Some xmlbrushdef)) preset_tree)))))
      else Inr None)"

definition set_hardness_try :: "pylib \<Rightarrow> pyfloat \<Rightarrow> view \<Rightarrow> pyexn + view" where
  "set_hardness_try L v vw =
     (case ET_fromstring L (preset_xml vw) of
        None \<Rightarrow> Inl ParseError
      | Some preset_tree \<Rightarrow>
          (case first_result (set_hardness_step L v preset_tree) (findall ''param'' preset_tree) of
             Inl e \<Rightarrow> Inl e
           | Inr None \<Rightarrow> Inr vw
           | Inr (Some tree') \<Rightarrow>
               Inr (vw\<lparr>preset_xml := ET_tostring L tree',
                       fromXML_calls := Suc (fromXML_calls vw)\<rparr>)))"

text \<open>\<^verbatim>\<open>_set_brush_hardness\<close> (lines 498-536): an exception is caught and printed.\<close>

definition set_brush_hardness :: "pylib \<Rightarrow> pyfloat \<Rightarrow> docker \<Rightarrow> docker" where
  "set_brush_hardness L v d =
     (case active_view d of
        None \<Rightarrow> d
      | Some vw \<Rightarrow>
          (case set_hardness_try L v vw of
             Inl e \<Rightarrow> d
           | Inr vw' \<Rightarrow> d\<lparr>active_view := Some vw'\<rparr>))"

text \<open>\<^verbatim>\<open>on_hardness_slider_changed\<close> (lines 425-430).\<close>

definition on_hardness_slider_changed :: "pylib \<Rightarrow> docker \<Rightarrow> pyfloat \<Rightarrow> outcome" where
  "on_hardness_slider_changed L d v =
     (case fdiv v (Finite 100) of
        Inl e \<Rightarrow> Raised e d
      | Inr internal_value \<Rightarrow>
          Returned ((set_brush_hardness L internal_value d)\<lparr>last_hardness := Some v\<rparr>))"

text \<open>\<^verbatim>\<open>update_from_current_brush\<close> (lines 375-388).\<close>

definition update_from_current_brush ::
  "pylib \<Rightarrow> (pyfloat \<Rightarrow> pyfloat) \<Rightarrow> docker \<Rightarrow> outcome" where
  "update_from_current_brush L qround d =
     (case active_view d of
        None \<Rightarrow> Returned d
      | Some vw \<Rightarrow>
          (case update_size_slider qround d (Some (brushSize vw)) of
             Raised e d1 \<Rightarrow> Raised e d1
           | Returned d1 \<Rightarrow>
               (case get_brush_hardness L d1 of
                  None \<Rightarrow> Returned d1
                | Some hardness_value \<Rightarrow>
                    update_hardness_slider qround d1 (Some hardness_value))))"

section \<open>Configuration\<close>

text \<open>
  What \<^verbatim>\<open>json.load\<close> can return, and what \<^verbatim>\<open>load_config\<close> (lines 202-219) can find on
  disk: no file, a file whose reading raises \<^verbatim>\<open>IOError\<close> or \<^verbatim>\<open>JSONDecodeError\<close> (both
  caught), or a file holding a JSON value.
\<close>

datatype json = JNull | JBool bool | JNum pyfloat | JStr string | JArray "json list"
  | JObject "(string \<times> json) list"

datatype config_file = Absent | Unreadable | Holds json

text \<open>
  \<^verbatim>\<open>max(100, min(10000, loaded_max))\<close>: a number is compared by value (a bool is the int
  0 or 1); comparing any other value with an int raises \<^verbatim>\<open>TypeError\<close>.
\<close>

fun clamp_loaded :: "json \<Rightarrow> pyexn + pyfloat" where
  "clamp_loaded (JNum x) = Inr (py_max (Finite 100) (py_min (Finite 10000) x))"
| "clamp_loaded (JBool b) =
     Inr (py_max (Finite 100) (py_min (Finite 10000) (Finite (if b then 1 else 0))))"
| "clamp_loaded j = Inl TypeError"

text \<open>
  \<^verbatim>\<open>config.get("max_brush_size", 1000)\<close>: a JSON object becomes a dict in which the last
  occurrence of a key counts; any other JSON value has no \<^verbatim>\<open>get\<close>.
\<close>

fun config_get :: "json \<Rightarrow> pyexn + json" where
  "config_get (JObject kvs) =
     (case map_of (rev kvs) ''max_brush_size'' of
        None \<Rightarrow> Inr (JNum (Finite 1000))
      | Some j \<Rightarrow> Inr j)"
| "config_get j = Inl AttributeError"

definition load_config :: "config_file \<Rightarrow> docker \<Rightarrow> outcome" where
  "load_config f d =
     (case (case f of
              Absent \<Rightarrow> Inr d
            | Unreadable \<Rightarrow> Inr (d\<lparr>max_brush_size := Finite 1000\<rparr>)
            | Holds config \<Rightarrow>
                (case config_get config of
                   Inl e \<Rightarrow> Inl e
                 | Inr loaded_max \<Rightarrow>
                     (case clamp_loaded loaded_max of
                        Inl e \<Rightarrow> Inl e
                      | Inr m \<Rightarrow> Inr (d\<lparr>max_brush_size := m\<rparr>)))) of
        Inl e \<Rightarrow> Raised e d
      | Inr d1 \<Rightarrow> Returned (d1\<lparr>timers := timers d1 @ [ValidateMaxBrushSize]\<rparr>))"

text \<open>
  \<^verbatim>\<open>__init__\<close> (lines 152-194): the initial attributes, \<^verbatim>\<open>load_config\<close>, the ranges and
  steps of the two sliders, and \<^verbatim>\<open>update_from_current_brush\<close>. A fresh spin box has the
  toolkit's defaults (range 0 to 99.99, step 1, value 0).
\<close>

definition fresh_slider :: "int \<Rightarrow> slider" where
  "fresh_slider w =
     \<lparr>minimum = Finite 0, maximum = Finite (9999 / 100), singleStep = Finite 1,
      held = Finite 0, rect_width = w, slider_dragging = False\<rparr>"

definition initial_docker :: "int \<Rightarrow> view option \<Rightarrow> docker" where
  "initial_docker w vw =
     \<lparr>max_brush_size = Finite 1000, last_brush_size = None, last_hardness = None,
      pending_config_save = False, hardness_slider = fresh_slider w,
      size_slider = fresh_slider w, active_view = vw, timers = [], config_writes = []\<rparr>"

definition docker_init ::
  "pylib \<Rightarrow> (pyfloat \<Rightarrow> pyfloat) \<Rightarrow> int \<Rightarrow> config_file \<Rightarrow> view option \<Rightarrow> outcome" where
  "docker_init L qround w f vw =
     (case load_config f (initial_docker w vw) of
        Raised e d \<Rightarrow> Raised e d
      | Returned d \<Rightarrow>
          update_from_current_brush L qround
            (d\<lparr>hardness_slider :=
                 (qt_setRange (hardness_slider d) (Finite 0) (Finite 100))\<lparr>singleStep := Finite 1\<rparr>,
               size_slider :=
                 (qt_setRange (size_slider d) (Finite 1) (max_brush_size d))\<lparr>singleStep := Finite 1\<rparr>\<rparr>))"

section \<open>Debounced saving as a transition system\<close>

text \<open>
  The two things that touch \<^verbatim>\<open>_pending_config_save\<close>: a call of \<^verbatim>\<open>save_config\<close>, and
  the expiry of a single-shot timer armed with \<^verbatim>\<open>_do_save_config\<close>, which can only
  happen when such a timer is armed.
\<close>

datatype event = CallSaveConfig | TimerFires

definition step :: "event \<Rightarrow> docker \<Rightarrow> docker option" where
  "step ev d =
     (case ev of
        CallSaveConfig \<Rightarrow> Some (save_config d)
      | TimerFires \<Rightarrow>
          if DoSaveConfig \<in> set (timers d)
          then Some (do_save_config (d\<lparr>timers := remove1 DoSaveConfig (timers d)\<rparr>))
          else None)"

fun run :: "event list \<Rightarrow> docker \<Rightarrow> docker option" where
  "run [] d = Some d"
| "run (ev # evs) d = (case step ev d of None \<Rightarrow> None | Some d' \<Rightarrow> run evs d')"


section \<open>Predicates of the claims\<close>

text \<open>The maximum brush size lies between 100 and 10000.\<close>

definition max_ok :: "docker \<Rightarrow> bool" where
  "max_ok d = (fle (Finite 100) (max_brush_size d) \<and> fle (max_brush_size d) (Finite 10000))"

text \<open>At most one \<^verbatim>\<open>_do_save_config\<close> timer is armed, and one is armed exactly when the
  flag \<^verbatim>\<open>_pending_config_save\<close> is set.\<close>

definition debounced :: "docker \<Rightarrow> bool" where
  "debounced d =
     (count_list (timers d) DoSaveConfig = (if pending_config_save d then 1 else 0))"

text \<open>
  The docker as \<^verbatim>\<open>__init__\<close> leaves it when there is no configuration file and no active
  view, for widgets 200 pixels wide.
\<close>

definition example_docker :: docker where
  "example_docker =
     \<lparr>max_brush_size = Finite 1000, last_brush_size = None, last_hardness = None,
      pending_config_save = False,
      hardness_slider = \<lparr>minimum = Finite 0, maximum = Finite 100, singleStep = Finite 1,
        held = Finite 0, rect_width = 200, slider_dragging = False\<rparr>,
      size_slider = \<lparr>minimum = Finite 1, maximum = Finite 1000, singleStep = Finite 1,
        held = Finite 1, rect_width = 200, slider_dragging = False\<rparr>,
      active_view = None, timers = [ValidateMaxBrushSize], config_writes = []\<rparr>"

text \<open>
  The conditions under which the loops of \<^verbatim>\<open>_get_brush_hardness\<close> and
  \<^verbatim>\<open>_set_brush_hardness\<close> reach the hardness in a \<^verbatim>\<open>param\<close> element: it is named
  \<^verbatim>\<open>brush_definition\<close>, its text is not empty and parses to \<open>brushdef\<close>, whose type is
  \<^verbatim>\<open>auto_brush\<close> and in which \<^verbatim>\<open>_find_mask_generator\<close> finds \<open>brushopt\<close>.
\<close>

definition usable :: "pylib \<Rightarrow> xml \<Rightarrow> xml \<Rightarrow> path \<times> xml \<Rightarrow> bool" where
  "usable L param brushdef brushopt =
     (get_attr param ''name'' = Some ''brush_definition''
      \<and> (case etext param of
            None \<Rightarrow> False
          | Some t \<Rightarrow> t \<noteq> [] \<and> ET_fromstring L t = Some brushdef)
      \<and> get_attr brushdef ''type'' = Some ''auto_brush''
      \<and> find_mask_generator brushdef = Some brushopt)"

text \<open>
  A \<^verbatim>\<open>param\<close> element both loops pass over with \<^verbatim>\<open>continue\<close>: it has another name, or no
  text, or its text parses to a definition that is not an \<^verbatim>\<open>auto_brush\<close> or has no mask
  generator. The reading loop also passes over a usable element whose node has neither
  \<^verbatim>\<open>hfade\<close> nor \<^verbatim>\<open>vfade\<close>.
\<close>

definition skipped :: "pylib \<Rightarrow> xml \<Rightarrow> bool" where
  "skipped L param =
     (get_attr param ''name'' \<noteq> Some ''brush_definition''
      \<or> (case etext param of
            None \<Rightarrow> True
          | Some t \<Rightarrow> t = []
              \<or> (case ET_fromstring L t of
                    None \<Rightarrow> False
                  | Some brushdef \<Rightarrow> get_attr brushdef ''type'' \<noteq> Some ''auto_brush''
                      \<or> find_mask_generator brushdef = None)))"

definition no_fade :: "pylib \<Rightarrow> xml \<Rightarrow> bool" where
  "no_fade L param =
     (get_attr param ''name'' = Some ''brush_definition''
      \<and> (case etext param of
            None \<Rightarrow> False
          | Some t \<Rightarrow> t \<noteq> []
              \<and> (case ET_fromstring L t of
                    None \<Rightarrow> False
                  | Some brushdef \<Rightarrow> get_attr brushdef ''type'' = Some ''auto_brush''
                      \<and> (case find_mask_generator brushdef of
                            None \<Rightarrow> False
                          | Some brushopt \<Rightarrow> fade_attr (snd brushopt) = None))))"

text \<open>
  Auxiliary notions of the proofs: the paths and tags of an element's \<^verbatim>\<open>iter()\<close>, which
  is all \<^verbatim>\<open>_find_mask_generator\<close> looks at, and the \<^verbatim>\<open>param\<close> items among a list of
  children, numbered from \<open>i\<close>.
\<close>

definition skel :: "xml \<Rightarrow> (path \<times> string) list" where
  "skel e = map (\<lambda>pe. (fst pe, tag (snd pe))) (iter e)"

definition skel_list :: "nat \<Rightarrow> xml list \<Rightarrow> (path \<times> string) list" where
  "skel_list i cs = map (\<lambda>pe. (fst pe, tag (snd pe))) (iter_list i cs)"

definition items :: "nat \<Rightarrow> xml list \<Rightarrow> (path \<times> xml) list" where
  "items i cs = filter (has_tag ''param'') (map (\<lambda>ic. ([fst ic], snd ic)) (enumerate i cs))"

subsection \<open>An example preset\<close>

text \<open>
  A preset as the host serialises it, the brush definition in a CDATA section, and the
  element trees \<^verbatim>\<open>ElementTree\<close> builds from the two strings.
\<close>

definition brushdef_text :: string where
  \<open>brushdef_text =
     ''<Brush type="auto_brush"><MaskGenerator hfade="0.3" vfade="0.3"/></Brush>''\<close>

definition brushdef_tree :: xml where
  "brushdef_tree =
     Element ''Brush'' [(''type'', ''auto_brush'')] None
       [Element ''MaskGenerator'' [(''hfade'', ''0.3''), (''vfade'', ''0.3'')] None []]"

definition preset_text :: string where
  \<open>preset_text =
     ''<Preset name="Basic"><param name="brush_definition" type="string"><![CDATA[<Brush type="auto_brush"><MaskGenerator hfade="0.3" vfade="0.3"/></Brush>]]></param></Preset>''\<close>

definition preset_tree :: xml where
  "preset_tree =
     Element ''Preset'' [(''name'', ''Basic'')] None
       [Element ''param'' [(''name'', ''brush_definition''), (''type'', ''string'')]
          (Some brushdef_text) []]"

text \<open>The same after the hardness 1.0 has been written, as \<^verbatim>\<open>ET.tostring\<close> prints it.\<close>

definition brushdef_text_1 :: string where
  \<open>brushdef_text_1 =
     ''<Brush type="auto_brush"><MaskGenerator hfade="1.0" vfade="1.0" /></Brush>''\<close>

definition brushdef_tree_1 :: xml where
  "brushdef_tree_1 =
     Element ''Brush'' [(''type'', ''auto_brush'')] None
       [Element ''MaskGenerator'' [(''hfade'', ''1.0''), (''vfade'', ''1.0'')] None []]"

definition preset_text_1 :: string where
  \<open>preset_text_1 =
     ''<Preset name="Basic"><param name="brush_definition" type="string">&lt;Brush type="auto_brush"&gt;&lt;MaskGenerator hfade="1.0" vfade="1.0" /&gt;&lt;/Brush&gt;</param></Preset>''\<close>

definition preset_tree_1 :: xml where
  "preset_tree_1 =
     Element ''Preset'' [(''name'', ''Basic'')] None
       [Element ''param'' [(''name'', ''brush_definition''), (''type'', ''string'')]
          (Some brushdef_text_1) []]"

text \<open>The same after the hardness 0.5 has been written.\<close>

definition brushdef_text_h :: string where
  \<open>brushdef_text_h =
     ''<Brush type="auto_brush"><MaskGenerator hfade="0.5" vfade="0.5" /></Brush>''\<close>

definition brushdef_tree_h :: xml where
  "brushdef_tree_h =
     Element ''Brush'' [(''type'', ''auto_brush'')] None
       [Element ''MaskGenerator'' [(''hfade'', ''0.5''), (''vfade'', ''0.5'')] None []]"

definition preset_text_h :: string where
  \<open>preset_text_h =
     ''<Preset name="Basic"><param name="brush_definition" type="string">&lt;Brush type="auto_brush"&gt;&lt;MaskGenerator hfade="0.5" vfade="0.5" /&gt;&lt;/Brush&gt;</param></Preset>''\<close>

definition preset_tree_h :: xml where
  "preset_tree_h =
     Element ''Preset'' [(''name'', ''Basic'')] None
       [Element ''param'' [(''name'', ''brush_definition''), (''type'', ''string'')]
          (Some brushdef_text_h) []]"

text \<open>A preset with a second \<^verbatim>\<open>brush_definition\<close> parameter in front, whose text is not
  XML.\<close>

definition broken_preset_text :: string where
  \<open>broken_preset_text =
     ''<Preset name="Basic"><param name="brush_definition" type="string">oops</param><param name="brush_definition" type="string"><![CDATA[<Brush type="auto_brush"><MaskGenerator hfade="0.3" vfade="0.3"/></Brush>]]></param></Preset>''\<close>

definition broken_preset_tree :: xml where
  "broken_preset_tree =
     Element ''Preset'' [(''name'', ''Basic'')] None
       [Element ''param'' [(''name'', ''brush_definition''), (''type'', ''string'')]
          (Some ''oops'') [],
        Element ''param'' [(''name'', ''brush_definition''), (''type'', ''string'')]
          (Some brushdef_text) []]"

text \<open>
  The library functions on the strings and values of the examples, as Python computes
  them; \<^verbatim>\<open>ET.fromstring\<close> raises on \<^verbatim>\<open>oops\<close>. (What the table returns elsewhere is of no
  consequence: the examples do not get there.)
\<close>

definition example_lib :: pylib where
  "example_lib =
     \<lparr>ET_fromstring = (\<lambda>s.
        if s = preset_text then Some preset_tree
        else if s = brushdef_text then Some brushdef_tree
        else if s = preset_text_1 then Some preset_tree_1
        else if s = brushdef_text_1 then Some brushdef_tree_1
        else if s = preset_text_h then Some preset_tree_h
        else if s = brushdef_text_h then Some brushdef_tree_h
        else if s = broken_preset_text then Some broken_preset_tree
        else None),
      ET_tostring = (\<lambda>t.
        if t = brushdef_tree_1 then brushdef_text_1
        else if t = preset_tree_1 then preset_text_1
        else if t = brushdef_tree_h then brushdef_text_h
        else if t = preset_tree_h then preset_text_h
        else []),
      float_of_str = (\<lambda>s.
        if s = ''1.0'' then Some (Finite 1)
        else if s = ''0.5'' then Some (Finite (1 / 2))
        else if s = ''0.3'' then Some (Finite (5404319552844595 / 18014398509481984))
        else None),
      str_of_float = (\<lambda>x.
        if x = Finite 1 then ''1.0''
        else if x = Finite (1 / 2) then ''0.5''
        else if x = Finite 0 then ''0.0''
        else ''nan'')\<rparr>"

definition example_view :: view where
  "example_view = \<lparr>brushSize = Finite 40, preset_xml = preset_text, fromXML_calls = 0\<rparr>"

definition painting_docker :: docker where
  "painting_docker = example_docker\<lparr>active_view := Some example_view\<rparr>"

text \<open>
  A preset whose brush definition has no element tagged \<^verbatim>\<open>MaskGenerator\<close>, only one
  tagged \<^verbatim>\<open>KisMaskGenerator\<close>; the same after the hardness 0.5 has been written; and the
  library functions on these strings and trees.
\<close>

definition kis_brushdef_text :: string where
  \<open>kis_brushdef_text =
     ''<Brush type="auto_brush"><KisMaskGenerator hfade="0.3" vfade="0.3"/></Brush>''\<close>

definition kis_brushdef_tree :: xml where
  "kis_brushdef_tree =
     Element ''Brush'' [(''type'', ''auto_brush'')] None
       [Element ''KisMaskGenerator'' [(''hfade'', ''0.3''), (''vfade'', ''0.3'')] None []]"

definition kis_preset_text :: string where
  \<open>kis_preset_text =
     ''<Preset name="Basic"><param name="brush_definition" type="string"><![CDATA[<Brush type="auto_brush"><KisMaskGenerator hfade="0.3" vfade="0.3"/></Brush>]]></param></Preset>''\<close>

definition kis_preset_tree :: xml where
  "kis_preset_tree =
     Element ''Preset'' [(''name'', ''Basic'')] None
       [Element ''param'' [(''name'', ''brush_definition''), (''type'', ''string'')]
          (Some kis_brushdef_text) []]"

definition kis_brushdef_text_h :: string where
  \<open>kis_brushdef_text_h =
     ''<Brush type="auto_brush"><KisMaskGenerator hfade="0.5" vfade="0.5" /></Brush>''\<close>

definition kis_brushdef_tree_h :: xml where
  "kis_brushdef_tree_h =
     Element ''Brush'' [(''type'', ''auto_brush'')] None
       [Element ''KisMaskGenerator'' [(''hfade'', ''0.5''), (''vfade'', ''0.5'')] None []]"

definition kis_preset_text_h :: string where
  \<open>kis_preset_text_h =
     ''<Preset name="Basic"><param name="brush_definition" type="string">&lt;Brush type="auto_brush"&gt;&lt;KisMaskGenerator hfade="0.5" vfade="0.5" /&gt;&lt;/Brush&gt;</param></Preset>''\<close>

definition kis_preset_tree_h :: xml where
  "kis_preset_tree_h =
     Element ''Preset'' [(''name'', ''Basic'')] None
       [Element ''param'' [(''name'', ''brush_definition''), (''type'', ''string'')]
          (Some kis_brushdef_text_h) []]"

definition kis_lib :: pylib where
  "kis_lib =
     \<lparr>ET_fromstring = (\<lambda>s.
        if s = kis_preset_text then Some kis_preset_tree
        else if s = kis_brushdef_text then Some kis_brushdef_tree
        else None),
      ET_tostring = (\<lambda>t.
        if t = kis_brushdef_tree_h then kis_brushdef_text_h
        else if t = kis_preset_tree_h then kis_preset_text_h
        else []),
      float_of_str = (\<lambda>s. if s = ''0.5'' then Some (Finite (1 / 2)) else None),
      str_of_float = (\<lambda>x. if x = Finite (1 / 2) then ''0.5'' else ''nan'')\<rparr>"

definition kis_docker :: docker where
  "kis_docker =
     example_docker\<lparr>active_view := Some (example_view\<lparr>preset_xml := kis_preset_text\<rparr>)\<rparr>"

definition broken_docker :: docker where
  "broken_docker =
     example_docker\<lparr>active_view := Some (example_view\<lparr>preset_xml := broken_preset_text\<rparr>)\<rparr>"

text \<open>
  A slider whose range does not start at a multiple of its step: values from 1 to 10 in
  steps of 4, drawn 100 pixels wide.
\<close>

definition coarse_slider :: slider where
  "coarse_slider =
     \<lparr>minimum = Finite 1, maximum = Finite 10, singleStep = Finite 4, held = Finite 5,
      rect_width = 100, slider_dragging = True\<rparr>"

section \<open>Locating the mask generator\<close>

lemma iter_subelement_aux:
  "(\<forall>p c. (p, c) \<in> set (iter e) \<longrightarrow> subelement e p = Some c)"
  "(\<forall>p c. (p, c) \<in> set (iter_list i cs) \<longrightarrow>
      (\<exists>j q. p = (i + j) # q \<and> j < length cs \<and> subelement (cs ! j) q = Some c))"
proof (induction e and i cs rule: iter_iter_list.induct)
  case (1 t a x cs)
  then show ?case by fastforce
next
  case (2 i)
  then show ?case by simp
next
  case (3 i c cs)
  show ?case
  proof (intro allI impI)
    fix p d assume "(p, d) \<in> set (iter_list i (c # cs))"
    then consider q where "p = i # q" "(q, d) \<in> set (iter c)"
      | "(p, d) \<in> set (iter_list (Suc i) cs)" by auto
    then show "\<exists>j q. p = (i + j) # q \<and> j < length (c # cs) \<and> subelement ((c # cs) ! j) q = Some d"
    proof cases
      case 1
      with 3 have "subelement c q = Some d" by blast
      with 1 show ?thesis by (intro exI[of _ 0] exI[of _ q]) simp
    next
      case 2
      with 3 obtain j q where "p = (Suc i + j) # q" "j < length cs" "subelement (cs ! j) q = Some d" by blast
      then show ?thesis by (intro exI[of _ "Suc j"] exI[of _ q]) simp
    qed
  qed
qed

lemma iter_subelement: "(p, c) \<in> set (iter e) \<Longrightarrow> subelement e p = Some c"
  using iter_subelement_aux(1) by blast

lemma iter_hd: "([], e) \<in> set (iter e)"
  by (cases e) simp

lemma iter_unfold: "iter e = ([], e) # iter_list 0 (children e)"
  by (cases e) simp

lemma iter_list_roots: "j < length cs \<Longrightarrow> ([i + j], cs ! j) \<in> set (iter_list i cs)"
proof (induction cs arbitrary: i j)
  case Nil
  then show ?case by simp
next
  case (Cons c cs)
  show ?case
  proof (cases j)
    case 0
    have "([], c) \<in> set (iter c)" by (rule iter_hd)
    then have "([i], c) \<in> (\<lambda>(p, e). (i # p, e)) ` set (iter c)" by force
    with 0 show ?thesis by simp
  next
    case (Suc k)
    with Cons.prems have "k < length cs" by simp
    from Cons.IH[OF this, of "Suc i"] Suc show ?thesis by simp
  qed
qed

lemma child_items_iter_list: "set (child_items e) \<subseteq> set (iter_list 0 (children e))"
proof
  fix pe assume "pe \<in> set (child_items e)"
  then obtain i where "i < length (children e)" "pe = ([i], children e ! i)"
    by (auto simp: child_items_def in_set_enumerate_eq)
  with iter_list_roots[of i "children e" 0] show "pe \<in> set (iter_list 0 (children e))" by simp
qed

lemma iter_list_iter: "set (iter_list 0 (children e)) \<subseteq> set (iter e)"
  by (simp add: iter_unfold[of e] subset_insertI)

lemma find_mask_generator_None:
  "find_mask_generator e = None \<longleftrightarrow> (\<forall>pe \<in> set (iter e). \<not> suffix ''MaskGenerator'' (tag (snd pe)))"
proof
  assume "find_mask_generator e = None"
  then have "List.find (tag_endswith ''MaskGenerator'') (iter e) = None"
    by (simp add: find_mask_generator_def split: option.splits)
  then show "\<forall>pe \<in> set (iter e). \<not> suffix ''MaskGenerator'' (tag (snd pe))"
    by (auto simp: find_None_iff tag_endswith_def)
next
  assume no: "\<forall>pe \<in> set (iter e). \<not> suffix ''MaskGenerator'' (tag (snd pe))"
  then have a: "\<forall>pe \<in> set (iter e). \<not> has_tag ''MaskGenerator'' pe"
    by (auto simp: has_tag_def)
  from no have 3: "List.find (tag_endswith ''MaskGenerator'') (iter e) = None"
    by (fastforce simp: find_None_iff tag_endswith_def)
  from a iter_list_iter[of e] have 2: "List.find (has_tag ''MaskGenerator'') (iter_list 0 (children e)) = None"
    by (auto simp: find_None_iff)
  from a iter_list_iter[of e] child_items_iter_list[of e]
  have 1: "List.find (has_tag ''MaskGenerator'') (child_items e) = None"
    by (auto simp: find_None_iff)
  from 1 2 3 show "find_mask_generator e = None" by (simp add: find_mask_generator_def)
qed

lemma find_in_set: "List.find P xs = Some x \<Longrightarrow> x \<in> set xs \<and> P x"
  by (auto simp: find_Some_iff)

lemma find_mask_generator_Some:
  assumes "find_mask_generator e = Some (p, c)"
  shows "subelement e p = Some c \<and> suffix ''MaskGenerator'' (tag c)"
proof -
  from assms consider
      "List.find (has_tag ''MaskGenerator'') (child_items e) = Some (p, c)"
    | "List.find (has_tag ''MaskGenerator'') (iter_list 0 (children e)) = Some (p, c)"
    | "List.find (tag_endswith ''MaskGenerator'') (iter e) = Some (p, c)"
    by (auto simp: find_mask_generator_def split: option.splits)
  then show ?thesis
  proof cases
    case 1
    from find_in_set[OF 1] child_items_iter_list[of e] iter_list_iter[of e]
    have "(p, c) \<in> set (iter e)" "tag c = ''MaskGenerator''" by (auto simp: has_tag_def)
    then show ?thesis by (simp add: iter_subelement)
  next
    case 2
    from find_in_set[OF 2] iter_list_iter[of e]
    have "(p, c) \<in> set (iter e)" "tag c = ''MaskGenerator''" by (auto simp: has_tag_def)
    then show ?thesis by (simp add: iter_subelement)
  next
    case 3
    from find_in_set[OF 3] show ?thesis by (simp add: iter_subelement tag_endswith_def)
  qed
qed

lemma find_mask_generator_exact:
  assumes ex: "\<exists>pe \<in> set (iter e). tag (snd pe) = ''MaskGenerator''"
  shows "\<exists>p c. find_mask_generator e = Some (p, c) \<and> tag c = ''MaskGenerator''"
proof (cases "List.find (has_tag ''MaskGenerator'') (child_items e)")
  case (Some pe)
  from find_in_set[OF Some] Some show ?thesis
    by (cases pe) (simp add: find_mask_generator_def has_tag_def)
next
  case None
  note n1 = this
  show ?thesis
  proof (cases "List.find (has_tag ''MaskGenerator'') (iter_list 0 (children e))")
    case (Some pe)
    from find_in_set[OF Some] Some n1 show ?thesis
      by (cases pe) (simp add: find_mask_generator_def has_tag_def)
  next
    case None
    then have "\<forall>pe \<in> set (iter_list 0 (children e)). tag (snd pe) \<noteq> ''MaskGenerator''"
      by (auto simp: find_None_iff has_tag_def)
    with ex have root: "tag e = ''MaskGenerator''"
      by (auto simp: iter_unfold[of e])
    then have "List.find (tag_endswith ''MaskGenerator'') (iter e) = Some ([], e)"
      by (simp add: iter_unfold[of e] tag_endswith_def)
    with n1 None root show ?thesis by (simp add: find_mask_generator_def)
  qed
qed


text \<open>
  C3, as stated: \<^verbatim>\<open>_find_mask_generator\<close> returns \<^verbatim>\<open>None\<close> when the tree has no element
  tagged \<^verbatim>\<open>MaskGenerator\<close>. This fails: the last resort of the function accepts any tag
  that ends with \<^verbatim>\<open>MaskGenerator\<close>, so a tree whose only candidate is tagged
  \<^verbatim>\<open>KisMaskGenerator\<close> yields that element.
\<close>

theorem find_mask_generator_exact_tag_counterexample:
  "map (\<lambda>pe. tag (snd pe))
       (iter (Element ''Brush'' [] None [Element ''KisMaskGenerator'' [] None []]))
     = [''Brush'', ''KisMaskGenerator'']
   \<and> find_mask_generator (Element ''Brush'' [] None [Element ''KisMaskGenerator'' [] None []])
     = Some ([0], Element ''KisMaskGenerator'' [] None [])"
  by (simp add: find_mask_generator_def child_items_def has_tag_def tag_endswith_def
      enumerate_eq_zip suffix_to_prefix)

text \<open>
  C3, amended: the function never raises (it is total). When some element of the tree,
  the root included, is tagged \<^verbatim>\<open>MaskGenerator\<close>, it returns an element of the tree so
  tagged. Whatever it returns is an element of the tree whose tag ends with
  \<^verbatim>\<open>MaskGenerator\<close>, and it returns \<^verbatim>\<open>None\<close> exactly when no element of the tree, the root
  included, has a tag ending with \<^verbatim>\<open>MaskGenerator\<close>.
\<close>

theorem find_mask_generator_finds:
  "((\<exists>pe \<in> set (iter e). tag (snd pe) = ''MaskGenerator'') \<longrightarrow>
      (\<exists>p c. find_mask_generator e = Some (p, c) \<and> subelement e p = Some c
         \<and> tag c = ''MaskGenerator''))
   \<and> (\<forall>p c. find_mask_generator e = Some (p, c) \<longrightarrow>
         subelement e p = Some c \<and> suffix ''MaskGenerator'' (tag c))
   \<and> (find_mask_generator e = None \<longleftrightarrow>
         (\<forall>pe \<in> set (iter e). \<not> suffix ''MaskGenerator'' (tag (snd pe))))"
proof (intro conjI impI allI)
  assume "\<exists>pe \<in> set (iter e). tag (snd pe) = ''MaskGenerator''"
  from find_mask_generator_exact[OF this] obtain p c
    where "find_mask_generator e = Some (p, c)" "tag c = ''MaskGenerator''" by blast
  with find_mask_generator_Some[of e p c]
  show "\<exists>p c. find_mask_generator e = Some (p, c) \<and> subelement e p = Some c
         \<and> tag c = ''MaskGenerator''" by blast
next
  fix p c assume "find_mask_generator e = Some (p, c)"
  from find_mask_generator_Some[OF this]
  show "subelement e p = Some c" "suffix ''MaskGenerator'' (tag c)" by simp_all
next
  show "find_mask_generator e = None \<longleftrightarrow>
         (\<forall>pe \<in> set (iter e). \<not> suffix ''MaskGenerator'' (tag (snd pe)))"
    by (rule find_mask_generator_None)
qed

theorem find_mask_generator_finds_witness:
  "(\<exists>p c. find_mask_generator
       (Element ''Brush'' [] None
          [Element ''A'' [] None [Element ''MaskGenerator'' [] None []]]) = Some (p, c)
      \<and> subelement
          (Element ''Brush'' [] None
             [Element ''A'' [] None [Element ''MaskGenerator'' [] None []]]) p = Some c
      \<and> tag c = ''MaskGenerator'')
   \<and> find_mask_generator (Element ''Brush'' [] None [Element ''Mask'' [] None []]) = None"
proof -
  have a: "\<exists>pe \<in> set (iter (Element ''Brush'' [] None
          [Element ''A'' [] None [Element ''MaskGenerator'' [] None []]])).
        tag (snd pe) = ''MaskGenerator''"
    by simp
  have b: "\<forall>pe \<in> set (iter (Element ''Brush'' [] None [Element ''Mask'' [] None []])).
        \<not> suffix ''MaskGenerator'' (tag (snd pe))"
    by (simp add: suffix_to_prefix)
  from a b
    find_mask_generator_finds[of "Element ''Brush'' [] None
          [Element ''A'' [] None [Element ''MaskGenerator'' [] None []]]"]
    find_mask_generator_finds[of "Element ''Brush'' [] None [Element ''Mask'' [] None []]"]
  show ?thesis by blast
qed


section \<open>The maximum brush size stays in range\<close>

lemma fle_Finite [simp]: "fle (Finite a) (Finite b) \<longleftrightarrow> a \<le> b"
  by (auto simp: fle_def feq_def)

lemma clamp_range:
  "fle (Finite 100) (py_max (Finite 100) (py_min (Finite 10000) x))
   \<and> fle (py_max (Finite 100) (py_min (Finite 10000) x)) (Finite 10000)"
  by (cases x) (auto simp: py_max_def py_min_def)

lemma max_save_config [simp]: "max_brush_size (save_config d) = max_brush_size d"
  by (simp add: save_config_def)

lemma max_on_size_slider_changed [simp]:
  "max_brush_size (on_size_slider_changed d v) = max_brush_size d"
  by (simp add: on_size_slider_changed_def split: option.splits)

lemma max_size_slider_setMaximum [simp]:
  "max_brush_size (size_slider_setMaximum Q d m) = max_brush_size d"
  by (simp add: size_slider_setMaximum_def Let_def)

lemma int_clamp_range:
  "(100::rat) \<le> of_int (min 10000 (max 100 n))" "(of_int (min 10000 (max 100 n)) :: rat) \<le> 10000"
  "(100::rat) \<le> of_int (min 10000 (max 1000 n))" "(of_int (min 10000 (max 1000 n)) :: rat) \<le> 10000"
proof -
  have "(of_int 100 :: rat) \<le> of_int (min 10000 (max 100 n))" by (subst of_int_le_iff) simp
  then show "(100::rat) \<le> of_int (min 10000 (max 100 n))" by simp
  have "(of_int (min 10000 (max 100 n)) :: rat) \<le> of_int 10000" by (subst of_int_le_iff) simp
  then show "(of_int (min 10000 (max 100 n)) :: rat) \<le> 10000" by simp
  have "(of_int 100 :: rat) \<le> of_int (min 10000 (max 1000 n))" by (subst of_int_le_iff) simp
  then show "(100::rat) \<le> of_int (min 10000 (max 1000 n))" by simp
  have "(of_int (min 10000 (max 1000 n)) :: rat) \<le> of_int 10000" by (subst of_int_le_iff) simp
  then show "(of_int (min 10000 (max 1000 n)) :: rat) \<le> 10000" by simp
qed

lemma load_config_max_ok: "max_ok (state_of (load_config f (initial_docker w vw)))"
proof (cases f)
  case Absent
  then show ?thesis by (simp add: load_config_def initial_docker_def max_ok_def)
next
  case Unreadable
  then show ?thesis by (simp add: load_config_def initial_docker_def max_ok_def)
next
  case (Holds j)
  show ?thesis
  proof (cases "config_get j")
    case (Inl e)
    with Holds show ?thesis by (simp add: load_config_def initial_docker_def max_ok_def)
  next
    case (Inr loaded)
    show ?thesis
    proof (cases "clamp_loaded loaded")
      case (Inl e)
      with Holds Inr show ?thesis by (simp add: load_config_def initial_docker_def max_ok_def)
    next
      case (Inr m)
      then have "fle (Finite 100) m \<and> fle m (Finite 10000)"
        using clamp_range by (cases loaded) auto
      with Holds \<open>config_get j = Inr loaded\<close> Inr show ?thesis
        by (simp add: load_config_def max_ok_def)
    qed
  qed
qed

lemma validate_max_ok: "max_ok d \<Longrightarrow> max_ok (state_of (validate_max_brush_size Q d))"
  by (auto simp: validate_max_brush_size_def max_ok_def Let_def int_clamp_range
      split: option.splits sum.splits)

lemma expand_max_ok:
  "max_ok d \<Longrightarrow> expand_max_size Q d s = Inr d1 \<Longrightarrow> max_ok d1"
  by (auto simp: expand_max_size_def max_ok_def Let_def int_clamp_range
      split: if_splits sum.splits)

lemma update_size_max_ok: "max_ok d \<Longrightarrow> max_ok (state_of (update_size_slider Q d s))"
proof (cases s)
  case None
  assume "max_ok d" with None show ?thesis by (simp add: update_size_slider_def)
next
  case (Some bsize)
  assume ok: "max_ok d"
  show ?thesis
  proof (cases "expand_max_size Q d bsize")
    case (Inl e)
    with Some ok show ?thesis by (simp add: update_size_slider_def)
  next
    case (Inr d1)
    from expand_max_ok[OF ok Inr] have "max_ok d1" .
    with Some Inr show ?thesis
      by (auto simp: update_size_slider_def Let_def max_ok_def split: sum.splits)
  qed
qed

lemma update_hardness_max [simp]:
  "max_brush_size (state_of (update_hardness_slider Q d h)) = max_brush_size d"
  by (auto simp: update_hardness_slider_def Let_def split: option.splits sum.splits)

lemma set_brush_hardness_max [simp]:
  "max_brush_size (set_brush_hardness L v d) = max_brush_size d"
  by (auto simp: set_brush_hardness_def split: option.splits sum.splits)

lemma update_from_current_brush_max_ok:
  "max_ok d \<Longrightarrow> max_ok (state_of (update_from_current_brush L Q d))"
proof -
  assume ok: "max_ok d"
  show ?thesis
  proof (cases "active_view d")
    case None
    with ok show ?thesis by (simp add: update_from_current_brush_def)
  next
    case (Some vw)
    from update_size_max_ok[OF ok, of Q "Some (brushSize vw)"]
    have 1: "max_ok (state_of (update_size_slider Q d (Some (brushSize vw))))" .
    show ?thesis
    proof (cases "update_size_slider Q d (Some (brushSize vw))")
      case (Raised e d1)
      with 1 Some show ?thesis by (simp add: update_from_current_brush_def)
    next
      case (Returned d1)
      with 1 have "max_ok d1" by simp
      then have "max_ok (state_of (update_hardness_slider Q d1 h))" for h
        by (simp add: max_ok_def)
      with Returned Some \<open>max_ok d1\<close> show ?thesis
        by (simp add: update_from_current_brush_def split: option.splits)
    qed
  qed
qed

lemma docker_init_max_ok: "max_ok (state_of (docker_init L Q w f vw))"
proof (cases "load_config f (initial_docker w vw)")
  case (Raised e d)
  with load_config_max_ok[of f w vw] show ?thesis by (simp add: docker_init_def)
next
  case (Returned d)
  with load_config_max_ok[of f w vw] have "max_ok d" by simp
  then have "max_ok (d\<lparr>hardness_slider :=
                 (qt_setRange (hardness_slider d) (Finite 0) (Finite 100))\<lparr>singleStep := Finite 1\<rparr>,
               size_slider :=
                 (qt_setRange (size_slider d) (Finite 1) (max_brush_size d))\<lparr>singleStep := Finite 1\<rparr>\<rparr>)"
    by (simp add: max_ok_def)
  from update_from_current_brush_max_ok[OF this] Returned show ?thesis
    by (simp add: docker_init_def)
qed


lemma validate_assigns:
  "max_brush_size (state_of (validate_max_brush_size Q d))
     \<in> {max_brush_size d, Finite 1000} \<union> range (\<lambda>n. Finite (of_int (min 10000 (max 1000 n))))"
  by (auto simp: validate_max_brush_size_def Let_def split: option.splits sum.splits)

lemma expand_assigns:
  "expand_max_size Q d s = Inr d1 \<Longrightarrow>
     max_brush_size d1
       \<in> {max_brush_size d} \<union> range (\<lambda>n. Finite (of_int (min 10000 (max 100 n))))"
  by (auto simp: expand_max_size_def Let_def split: if_splits sum.splits)

lemma update_size_max:
  "max_brush_size (state_of (update_size_slider Q d (Some bsize))) =
     (case expand_max_size Q d bsize of Inl e \<Rightarrow> max_brush_size d | Inr d1 \<Rightarrow> max_brush_size d1)"
  by (cases "expand_max_size Q d bsize")
     (simp_all add: update_size_slider_def Let_def split: sum.splits)

lemma update_size_assigns:
  "max_brush_size (state_of (update_size_slider Q d s))
     \<in> {max_brush_size d} \<union> range (\<lambda>n. Finite (of_int (min 10000 (max 100 n))))"
proof (cases s)
  case None
  then show ?thesis by (simp add: update_size_slider_def)
next
  case (Some bsize)
  show ?thesis
  proof (cases "expand_max_size Q d bsize")
    case (Inl e)
    with Some show ?thesis by (simp add: update_size_max)
  next
    case (Inr d1)
    from expand_assigns[OF Inr] Some Inr show ?thesis by (simp add: update_size_max)
  qed
qed

text \<open>
  C10: after \<^verbatim>\<open>load_config\<close> in \<^verbatim>\<open>__init__\<close>, and after the whole of \<^verbatim>\<open>__init__\<close>, whatever
  the configuration file holds, \<^verbatim>\<open>max_brush_size\<close> lies in [100, 10000]. Every method
  that assigns it keeps it there: \<^verbatim>\<open>_validate_max_brush_size\<close> assigns 1000 or
  \<^verbatim>\<open>min(10000, max(1000, int(size)))\<close>, \<^verbatim>\<open>_update_size_slider\<close> assigns
  \<^verbatim>\<open>min(10000, max(100, int(size)))\<close>, and \<^verbatim>\<open>update_from_current_brush\<close> only goes
  through the latter. The remaining methods do not assign it.
\<close>

theorem max_brush_size_in_range:
  "max_ok (state_of (load_config f (initial_docker w vw)))
   \<and> max_ok (state_of (docker_init L Q w f vw))
   \<and> (max_ok d \<longrightarrow>
         max_ok (state_of (validate_max_brush_size Q d))
       \<and> max_ok (state_of (update_size_slider Q d s))
       \<and> max_ok (state_of (update_from_current_brush L Q d)))
   \<and> max_brush_size (state_of (validate_max_brush_size Q d))
       \<in> {max_brush_size d, Finite 1000}
         \<union> range (\<lambda>n. Finite (of_int (min 10000 (max 1000 n))))
   \<and> max_brush_size (state_of (update_size_slider Q d s))
       \<in> {max_brush_size d} \<union> range (\<lambda>n. Finite (of_int (min 10000 (max 100 n))))
   \<and> max_brush_size (save_config d) = max_brush_size d
   \<and> max_brush_size (do_save_config d) = max_brush_size d
   \<and> max_brush_size (on_size_slider_changed d v) = max_brush_size d
   \<and> max_brush_size (state_of (update_hardness_slider Q d h)) = max_brush_size d
   \<and> max_brush_size (set_brush_hardness L v d) = max_brush_size d
   \<and> max_brush_size (state_of (on_hardness_slider_changed L d v)) = max_brush_size d"
proof -
  have "max_brush_size (do_save_config d) = max_brush_size d"
    by (simp add: do_save_config_def)
  moreover have "max_brush_size (state_of (on_hardness_slider_changed L d v)) = max_brush_size d"
    by (simp add: on_hardness_slider_changed_def split: sum.splits)
  ultimately show ?thesis
    using load_config_max_ok[of f w vw] docker_init_max_ok[of L Q w f vw]
      validate_max_ok[of d Q] update_size_max_ok[of d Q s]
      update_from_current_brush_max_ok[of d L Q]
      validate_assigns[of Q d] update_size_assigns[of Q d s]
    by simp
qed

theorem max_brush_size_in_range_witness:
  "max_ok (initial_docker 200 None)
   \<and> max_ok (state_of (validate_max_brush_size (\<lambda>v. v) (initial_docker 200 None)))
   \<and> max_ok (state_of (update_size_slider (\<lambda>v. v) (initial_docker 200 None)
        (Some (Finite 20000))))
   \<and> max_brush_size (state_of (update_size_slider (\<lambda>v. v) (initial_docker 200 None)
        (Some (Finite 20000)))) = Finite 10000"
proof -
  have ok: "max_ok (initial_docker 200 None)"
    by (simp add: max_ok_def initial_docker_def)
  have m: "max_brush_size (state_of (update_size_slider (\<lambda>v. v) (initial_docker 200 None)
        (Some (Finite 20000)))) = Finite 10000"
    by (simp add: update_size_slider_def expand_max_size_def initial_docker_def Let_def
        trunc_def feq_def py_ne_def py_max_def py_min_def split: sum.splits)
  from ok m
    max_brush_size_in_range[of Absent 200 None undefined "\<lambda>v. v" "initial_docker 200 None"
      "Some (Finite 20000)"]
  show ?thesis by simp
qed


section \<open>Debounced saving\<close>

lemma save_config_debounced: "debounced d \<Longrightarrow> debounced (save_config d)"
  by (simp add: debounced_def save_config_def)

lemma count_list_remove1:
  "x \<in> set xs \<Longrightarrow> count_list (remove1 x xs) x = count_list xs x - 1"
  by (induction xs) auto

lemma count_list_pos: "x \<in> set xs \<Longrightarrow> 0 < count_list xs x"
  by (induction xs) auto

lemma fire_debounced:
  assumes "debounced d" "DoSaveConfig \<in> set (timers d)"
  shows "debounced (do_save_config (d\<lparr>timers := remove1 DoSaveConfig (timers d)\<rparr>))"
    and "pending_config_save d"
proof -
  from count_list_pos[OF assms(2)] assms(1) show p: "pending_config_save d"
    by (auto simp: debounced_def split: if_splits)
  with assms(1) have "count_list (timers d) DoSaveConfig = 1" by (simp add: debounced_def)
  with count_list_remove1[OF assms(2)]
  show "debounced (do_save_config (d\<lparr>timers := remove1 DoSaveConfig (timers d)\<rparr>))"
    by (simp add: debounced_def do_save_config_def)
qed

lemma step_debounced: "debounced d \<Longrightarrow> step ev d = Some d' \<Longrightarrow> debounced d'"
  by (cases ev) (auto simp: step_def save_config_debounced fire_debounced(1) split: if_splits)

lemma run_debounced: "debounced d \<Longrightarrow> run evs d = Some d' \<Longrightarrow> debounced d'"
proof (induction evs arbitrary: d)
  case Nil
  then show ?case by simp
next
  case (Cons ev evs)
  then show ?case by (auto split: option.splits dest: step_debounced)
qed

lemma run_append:
  "run (xs @ ys) d = (case run xs d of None \<Rightarrow> None | Some d' \<Rightarrow> run ys d')"
  by (induction xs arbitrary: d) (auto split: option.splits)

lemma fire_clears:
  "debounced d \<Longrightarrow> step TimerFires d = Some d' \<Longrightarrow>
     \<not> pending_config_save d' \<and> DoSaveConfig \<notin> set (timers d')"
proof -
  assume a: "debounced d" "step TimerFires d = Some d'"
  from step_debounced[OF a] have "debounced d'" .
  moreover from a(2) have "\<not> pending_config_save d'"
    by (auto simp: step_def do_save_config_def split: if_splits)
  ultimately show ?thesis
    using count_list_pos[of DoSaveConfig "timers d'"] by (auto simp: debounced_def)
qed

lemma no_fire_without_call:
  assumes "DoSaveConfig \<notin> set (timers d)" "CallSaveConfig \<notin> set ys"
  shows "run (ys @ [TimerFires]) d = None"
  using assms
proof (cases ys)
  case Nil
  with assms show ?thesis by (simp add: step_def)
next
  case (Cons y ys')
  with assms(2) have "y = TimerFires" by (cases y) auto
  with Cons assms(1) show ?thesis by (simp add: step_def)
qed

lemma two_writes_need_a_call:
  assumes inv: "debounced d"
    and r: "run (xs @ [TimerFires] @ ys @ [TimerFires] @ zs) d = Some d'"
  shows "CallSaveConfig \<in> set ys"
proof (rule ccontr)
  assume n: "CallSaveConfig \<notin> set ys"
  from r obtain d1 where 1: "run xs d = Some d1"
    by (auto simp: run_append split: option.splits)
  with r obtain d2 where 2: "step TimerFires d1 = Some d2"
    by (auto simp: run_append split: option.splits)
  from run_debounced[OF inv 1] have "debounced d1" .
  from fire_clears[OF this 2] have "DoSaveConfig \<notin> set (timers d2)" by simp
  from no_fire_without_call[OF this n] have "run (ys @ [TimerFires]) d2 = None" .
  then have "run ((ys @ [TimerFires]) @ zs) d2 = None"
    by (simp only: run_append[of "ys @ [TimerFires]" zs d2] option.case)
  moreover from r 1 2 have "run (ys @ [TimerFires] @ zs) d2 = Some d'"
    by (simp add: run_append)
  ultimately show False by simp
qed

lemma writes_count:
  "step TimerFires d = Some d' \<Longrightarrow> length (config_writes d') = Suc (length (config_writes d))"
  by (auto simp: step_def do_save_config_def split: if_splits)


lemma setMaximum_frame [simp]:
  "timers (size_slider_setMaximum Q d m) = timers d"
  "pending_config_save (size_slider_setMaximum Q d m) = pending_config_save d"
  by (simp_all add: size_slider_setMaximum_def on_size_slider_changed_def Let_def
      split: option.splits)

lemma validate_debounced:
  "debounced d \<Longrightarrow> debounced (state_of (validate_max_brush_size Q d))"
  by (auto simp: validate_max_brush_size_def Let_def debounced_def save_config_def
      split: option.splits sum.splits)

lemma expand_debounced:
  "debounced d \<Longrightarrow> expand_max_size Q d s = Inr d1 \<Longrightarrow> debounced d1"
  by (auto simp: expand_max_size_def Let_def debounced_def save_config_def
      split: if_splits sum.splits)

lemma update_size_debounced:
  "debounced d \<Longrightarrow> debounced (state_of (update_size_slider Q d s))"
proof (cases s)
  case None
  assume "debounced d" with None show ?thesis by (simp add: update_size_slider_def)
next
  case (Some bsize)
  assume ok: "debounced d"
  show ?thesis
  proof (cases "expand_max_size Q d bsize")
    case (Inl e)
    with Some ok show ?thesis by (simp add: update_size_slider_def)
  next
    case (Inr d1)
    from expand_debounced[OF ok Inr] have "debounced d1" .
    with Some Inr show ?thesis
      by (auto simp: update_size_slider_def Let_def debounced_def split: sum.splits)
  qed
qed

text \<open>
  C8: saving is debounced. Starting from a state in which a \<^verbatim>\<open>_do_save_config\<close> timer is
  armed exactly when \<^verbatim>\<open>_pending_config_save\<close> is set (as after \<^verbatim>\<open>__init__\<close>), every
  sequence of \<^verbatim>\<open>save_config\<close> calls and timer expiries keeps it so, hence a second write is
  never scheduled while one is pending; so do the methods that call \<^verbatim>\<open>save_config\<close>.
  \<^verbatim>\<open>save_config\<close> is a no-op while the flag is set and otherwise sets it and arms one
  timer; \<^verbatim>\<open>_do_save_config\<close> clears the flag and writes the current maximum; and between
  any two executed writes there is a \<^verbatim>\<open>save_config\<close> call.
\<close>

theorem config_save_debounced:
  "debounced (initial_docker w vw)
   \<and> (debounced d \<longrightarrow>
        (\<forall>evs d'. run evs d = Some d' \<longrightarrow> debounced d')
      \<and> debounced (state_of (validate_max_brush_size Q d))
      \<and> debounced (state_of (update_size_slider Q d s))
      \<and> (\<forall>xs ys zs d'. run (xs @ [TimerFires] @ ys @ [TimerFires] @ zs) d = Some d' \<longrightarrow>
            CallSaveConfig \<in> set ys))
   \<and> (pending_config_save d \<longrightarrow> save_config d = d)
   \<and> (\<not> pending_config_save d \<longrightarrow>
        save_config d = d\<lparr>pending_config_save := True, timers := timers d @ [DoSaveConfig]\<rparr>)
   \<and> \<not> pending_config_save (do_save_config d)
   \<and> config_writes (do_save_config d) = config_writes d @ [max_brush_size d]"
proof -
  have "debounced (initial_docker w vw)"
    by (simp add: debounced_def initial_docker_def)
  moreover have "pending_config_save d \<longrightarrow> save_config d = d"
    by (simp add: save_config_def)
  moreover have "\<not> pending_config_save d \<longrightarrow>
        save_config d = d\<lparr>pending_config_save := True, timers := timers d @ [DoSaveConfig]\<rparr>"
    by (simp add: save_config_def)
  moreover have "\<not> pending_config_save (do_save_config d)"
    "config_writes (do_save_config d) = config_writes d @ [max_brush_size d]"
    by (simp_all add: do_save_config_def)
  ultimately show ?thesis
    using run_debounced[of d] validate_debounced[of d Q] update_size_debounced[of d Q s]
      two_writes_need_a_call[of d]
    by blast
qed

theorem config_save_debounced_witness:
  "debounced (initial_docker 200 None)
   \<and> (\<exists>d'. run [CallSaveConfig, CallSaveConfig, TimerFires, CallSaveConfig, TimerFires]
              (initial_docker 200 None) = Some d'
          \<and> debounced d' \<and> config_writes d' = [Finite 1000, Finite 1000])
   \<and> CallSaveConfig \<in> set [CallSaveConfig]
   \<and> run [CallSaveConfig, CallSaveConfig, TimerFires, TimerFires] (initial_docker 200 None)
       = None"
proof -
  have r: "\<exists>d'. run ([CallSaveConfig, CallSaveConfig] @ [TimerFires] @ [CallSaveConfig]
             @ [TimerFires] @ []) (initial_docker 200 None) = Some d'
            \<and> config_writes d' = [Finite 1000, Finite 1000]"
    by (simp add: step_def save_config_def do_save_config_def initial_docker_def)
  have n: "run [CallSaveConfig, CallSaveConfig, TimerFires, TimerFires] (initial_docker 200 None)
       = None"
    by (simp add: step_def save_config_def do_save_config_def initial_docker_def)
  from r n config_save_debounced[of 200 None "initial_docker 200 None" "\<lambda>v. v" None]
  show ?thesis by fastforce
qed



section \<open>Mirroring the brush size\<close>

lemma example_docker_init: "docker_init L (\<lambda>v. v) 200 Absent None = Returned example_docker"
  by (simp add: docker_init_def load_config_def initial_docker_def fresh_slider_def
      update_from_current_brush_def qt_setRange_def qt_bound_def example_docker_def Let_def)

lemma bit_length_numeral [simp]:
  "bit_length 0 = 0"
  "bit_length (Suc 0) = Suc 0"
  "bit_length 1 = Suc 0"
  "bit_length (numeral k) = Suc (bit_length (numeral k div 2))"
  by (simp_all add: bit_length.simps[of 0] bit_length.simps[of "Suc 0"]
      bit_length.simps[of "numeral k"])

lemma floor_rat_numeral [simp]:
  "\<lfloor>numeral a / numeral b :: rat\<rfloor> = numeral a div numeral b"
  by (metis floor_divide_of_int_eq of_int_numeral)

lemma ceiling_rat_numeral [simp]:
  "\<lceil>numeral a / numeral b :: rat\<rceil> = - (- numeral a div numeral b)"
  by (metis ceiling_def floor_divide_of_int_eq of_int_numeral of_int_minus minus_divide_left)

lemma trunc_of_int [simp]: "trunc (of_int n) = n"
  by (simp add: trunc_def)

lemma trunc_bounds: "1 \<le> c \<Longrightarrow> c \<le> of_int M \<Longrightarrow> 1 \<le> trunc c \<and> trunc c \<le> M"
  by (simp add: trunc_def le_floor_iff floor_le_iff)

lemma trunc_ge: "of_int m < r \<Longrightarrow> 0 \<le> m \<Longrightarrow> m \<le> trunc r"
  by (simp add: trunc_def le_floor_iff)

lemma setMaximum_grow:
  assumes rng: "minimum s = Finite 1" "maximum s = Finite (of_int m)"
    and h: "held s = Finite h" "1 \<le> h" "h \<le> of_int m"
    and M: "m \<le> M" "1 \<le> m"
    and Q: "Q (Finite (of_int M)) = Finite (of_int M)"
  shows "qt_setMaximum Q s (Finite (of_int M)) = s\<lparr>maximum := Finite (of_int M)\<rparr>"
proof -
  from M have "(1::rat) \<le> of_int M" by simp
  moreover from M h have "h \<le> of_int M" by (meson of_int_le_iff order_trans)
  ultimately show ?thesis using rng h Q M
    by (cases "(1::rat) < of_int M") (auto simp: qt_setMaximum_def qt_setRange_def qt_bound_def Let_def)
qed



text \<open>
  C7, as stated: after \<^verbatim>\<open>_update_size_slider(s)\<close> the slider's value is \<open>s\<close> clamped to
  [1, max_brush_size]. This fails for a size that is not a whole number: the method
  passes \<^verbatim>\<open>int(clamped_size)\<close> to \<^verbatim>\<open>setValue\<close>. For the size 12.5 the clamped size is
  12.5 and the slider holds 12.
\<close>

theorem update_size_slider_fraction_counterexample:
  "update_size_slider (\<lambda>v. v) example_docker (Some (Finite (25 / 2)))
     = Returned (example_docker\<lparr>last_brush_size := Some (Finite (25 / 2)),
         size_slider := (size_slider example_docker)\<lparr>held := Finite 12\<rparr>\<rparr>)
   \<and> py_max (Finite 1) (py_min (max_brush_size example_docker) (Finite (25 / 2)))
       = Finite (25 / 2)"
  by (simp add: update_size_slider_def expand_max_size_def example_docker_def Let_def
      py_max_def py_min_def py_ne_def trunc_def qt_setValue_def qt_bound_def)

text \<open>
  C7, amended. Let the docker be in a state its own methods produce: the maximum brush
  size is a whole number \<open>m\<close> in [100, 10000], the size slider ranges over [1, \<open>m\<close>] and
  holds a value in that range, and the toolkit's rounding leaves whole numbers alone.
  Then for every finite size \<open>r\<close> the call returns; the maximum becomes
  \<^verbatim>\<open>min(10000, max(100, int(r)))\<close> when \<open>r\<close> exceeds \<open>m\<close> and stays \<open>m\<close> otherwise, and the
  slider's range follows it; with \<open>c\<close> the size clamped to [1, maximum]: when
  \<^verbatim>\<open>last_brush_size\<close> differs from \<open>c\<close>, the slider holds \<^verbatim>\<open>int(c)\<close>, the clamped size
  truncated towards zero, and \<^verbatim>\<open>last_brush_size\<close> becomes \<open>c\<close>; when it equals \<open>c\<close>, the
  held value is left as it is. So a whole-numbered size between 1 and 10000 that differs
  from \<^verbatim>\<open>last_brush_size\<close> is mirrored exactly.
\<close>

theorem update_size_slider_truncates:
  assumes m: "max_brush_size d = Finite (of_int m)" "100 \<le> m" "m \<le> 10000"
    and rng: "minimum (size_slider d) = Finite 1" "maximum (size_slider d) = Finite (of_int m)"
    and h: "held (size_slider d) = Finite h" "1 \<le> h" "h \<le> of_int m"
    and Q: "\<forall>n. Q (Finite (of_int n)) = Finite (of_int n)"
    and M: "M = (if of_int m < r then min 10000 (max 100 (trunc r)) else m)"
    and c: "c = max 1 (min (of_int M) r)"
  shows "\<exists>d'. update_size_slider Q d (Some (Finite r)) = Returned d'
      \<and> max_brush_size d' = Finite (of_int M)
      \<and> minimum (size_slider d') = Finite 1 \<and> maximum (size_slider d') = Finite (of_int M)
      \<and> (if py_ne (last_brush_size d) (Finite c)
          then held (size_slider d') = Finite (of_int (trunc c))
             \<and> last_brush_size d' = Some (Finite c)
          else held (size_slider d') = held (size_slider d)
             \<and> last_brush_size d' = last_brush_size d)
      \<and> (\<forall>n. r = of_int n \<and> 1 \<le> n \<and> n \<le> 10000 \<longrightarrow> c = r \<and> trunc c = n)"
proof -
  have mM: "m \<le> M" "M \<le> 10000" "100 \<le> M"
    using m(2,3) M trunc_ge[of m r] by (auto split: if_splits)
  define d1 where "d1 = (if of_int m < r \<and> M \<noteq> m
     then save_config ((d\<lparr>max_brush_size := Finite (of_int M)\<rparr>)
            \<lparr>size_slider := (size_slider d)\<lparr>maximum := Finite (of_int M)\<rparr>\<rparr>)
     else d)"
  have sm: "qt_setMaximum Q (size_slider d) (Finite (of_int M))
      = (size_slider d)\<lparr>maximum := Finite (of_int M)\<rparr>"
  proof (rule setMaximum_grow[OF rng h mM(1)])
    show "1 \<le> m" using m(2) by simp
    show "Q (Finite (of_int M)) = Finite (of_int M)" using Q by simp
  qed
  have e: "expand_max_size Q d (Finite r) = Inr d1"
    using m(1) M sm
    by (auto simp: expand_max_size_def d1_def Let_def feq_def size_slider_setMaximum_def)
  have d1: "max_brush_size d1 = Finite (of_int M)" "minimum (size_slider d1) = Finite 1"
    "maximum (size_slider d1) = Finite (of_int M)" "held (size_slider d1) = held (size_slider d)"
    "last_brush_size d1 = last_brush_size d"
    using m(1) rng M by (auto simp: d1_def save_config_def)
  have cl: "py_max (Finite 1) (py_min (max_brush_size d1) (Finite r)) = Finite c"
    using d1(1) c by (auto simp: py_max_def py_min_def max_def min_def)
  have cb: "1 \<le> c" "c \<le> of_int M"
    using c mM(3) by (auto simp: max_def min_def)
  from trunc_bounds[OF cb] have tb: "1 \<le> trunc c" "trunc c \<le> M" by simp_all
  have sv: "qt_setValue Q (size_slider d1) (Finite (of_int (trunc c)))
      = (size_slider d1)\<lparr>held := Finite (of_int (trunc c))\<rparr>"
    using tb d1(2,3) Q by (simp add: qt_setValue_def qt_bound_def)
  have whole: "c = r \<and> trunc c = n" if n: "r = of_int n" "1 \<le> n" "n \<le> 10000" for n
  proof -
    have "n \<le> M" using M n m(2,3) by (auto split: if_splits)
    then have "c = r" using c n by (simp add: max_def min_def)
    then show ?thesis using n by simp
  qed
  have r: "update_size_slider Q d (Some (Finite r)) =
      (if py_ne (last_brush_size d) (Finite c)
       then Returned (d1\<lparr>last_brush_size := Some (Finite c),
              size_slider := (size_slider d1)\<lparr>held := Finite (of_int (trunc c))\<rparr>\<rparr>)
       else Returned d1)"
    using e cl sv d1(5) by (simp add: update_size_slider_def Let_def)
  show ?thesis
  proof (cases "py_ne (last_brush_size d) (Finite c)")
    case True
    with r d1 whole show ?thesis by simp
  next
    case False
    with r d1 whole show ?thesis by simp
  qed
qed

theorem update_size_slider_truncates_witness:
  "\<exists>d'. update_size_slider (\<lambda>v. v) example_docker (Some (Finite (25007 / 10))) = Returned d'
      \<and> max_brush_size d' = Finite 2500
      \<and> maximum (size_slider d') = Finite 2500
      \<and> held (size_slider d') = Finite 2500
      \<and> last_brush_size d' = Some (Finite 2500)"
proof -
  have M: "(2500::int) = (if of_int 1000 < (25007 / 10 :: rat)
      then min 10000 (max 100 (trunc (25007 / 10))) else 1000)"
    by (simp add: trunc_def)
  have c: "(2500::rat) = max 1 (min (of_int 2500) (25007 / 10))" by simp
  have t: "trunc 2500 = 2500" by (simp add: trunc_def)
  from update_size_slider_truncates[of example_docker 1000 1 "\<lambda>v. v" 2500 "25007 / 10" 2500,
      OF _ _ _ _ _ _ _ _ _ M c] t
  show ?thesis by (auto simp: example_docker_def py_ne_def)
qed



section \<open>The hardness percentage\<close>

lemmas float_eval = round_double_def ilog2_def pow2_def round_half_even_def Let_def

lemma internal_29: "fdiv (Finite 29) (Finite 100) = Inr (Finite (5224175567749775 / 18014398509481984))"
  by (simp add: fdiv_def float_eval)

lemma times_100_29: "fmul (Finite (5224175567749775 / 18014398509481984)) (Finite 100)
       = Finite (8162774324609023 / 281474976710656)"
  by (simp add: fmul_def float_eval)

lemma int_29: "py_int (Finite (8162774324609023 / 281474976710656)) = Inr 28"
  by (simp add: trunc_def)

text \<open>
  C9 says that \<^verbatim>\<open>int((n / 100.0) * 100.0)\<close> is \<open>n\<close> for every \<open>n\<close> from 0 to 100. The code
  at \<open>n = 29\<close>: \<^verbatim>\<open>on_hardness_slider_changed\<close> computes 29 / 100.0, the float nearest to
  0.29, which lies below 0.29; \<^verbatim>\<open>_update_hardness_slider\<close> multiplies it by 100.0, which
  rounds to the float just below 29, and \<^verbatim>\<open>int\<close> truncates it to 28. A docker that
  remembers 29 as \<^verbatim>\<open>last_hardness\<close> and shows 29 therefore moves its slider to 28.
\<close>

theorem hardness_29_displayed_as_28:
  "fdiv (Finite 29) (Finite 100) = Inr (Finite (5224175567749775 / 18014398509481984))
   \<and> fmul (Finite (5224175567749775 / 18014398509481984)) (Finite 100)
       = Finite (8162774324609023 / 281474976710656)
   \<and> py_int (Finite (8162774324609023 / 281474976710656)) = Inr 28
   \<and> update_hardness_slider (\<lambda>v. v)
        (example_docker\<lparr>last_hardness := Some (Finite 29),
           hardness_slider := (hardness_slider example_docker)\<lparr>held := Finite 29\<rparr>\<rparr>)
        (Some (Finite (5224175567749775 / 18014398509481984)))
       = Returned (example_docker\<lparr>last_hardness := Some (Finite 28),
           hardness_slider := (hardness_slider example_docker)\<lparr>held := Finite 28\<rparr>\<rparr>)"
  using internal_29 times_100_29 int_29
  by (simp add: update_hardness_slider_def py_ne_def feq_def qt_setValue_def qt_bound_def
      example_docker_def Let_def)

lemma hardness_57_displayed_as_56: "fdiv (Finite 57) (Finite 100) = Inr h \<Longrightarrow> py_int (fmul h (Finite 100)) = Inr 56"
  by (auto simp add: fdiv_def fmul_def float_eval trunc_def)
lemma hardness_58_displayed_as_57: "fdiv (Finite 58) (Finite 100) = Inr h \<Longrightarrow> py_int (fmul h (Finite 100)) = Inr 57"
  by (auto simp add: fdiv_def fmul_def float_eval trunc_def)
lemma hardness_30_roundtrip: "fdiv (Finite 30) (Finite 100) = Inr h \<Longrightarrow> py_int (fmul h (Finite 100)) = Inr 30"
  by (auto simp add: fdiv_def fmul_def float_eval trunc_def)

section \<open>The hardness in the preset\<close>

lemma first_result_skip:
  "\<forall>x \<in> set pre. f x = Inr None \<Longrightarrow> first_result f (pre @ xs) = first_result f xs"
  by (induction pre) auto

lemma first_result_Some:
  "first_result f xs = Inr (Some r) \<Longrightarrow> \<exists>x \<in> set xs. f x = Inr (Some r)"
  by (induction xs) (auto split: sum.splits option.splits)

lemma first_result_hit:
  "\<forall>x \<in> set pre. f x = Inr None \<Longrightarrow> f x = Inr (Some r) \<Longrightarrow>
     first_result f (pre @ x # post) = Inr (Some r)"
  by (simp add: first_result_skip)

lemma subelement_update_at:
  "subelement e q = Some n \<Longrightarrow> subelement (update_at q f e) q = Some (f n)"
  by (induction q arbitrary: e) (auto split: if_splits)

lemma skel_unfold: "skel e = ([], tag e) # skel_list 0 (children e)"
  by (cases e) (simp add: skel_def skel_list_def)

lemma skel_list_simps:
  "skel_list i [] = []"
  "skel_list i (c # cs) = map (\<lambda>pt. (i # fst pt, snd pt)) (skel c) @ skel_list (Suc i) cs"
  by (simp_all add: skel_def skel_list_def case_prod_beta comp_def)

lemma skel_list_cong:
  "map skel cs = map skel cs' \<Longrightarrow> skel_list i cs = skel_list i cs'"
proof (induction cs arbitrary: cs' i)
  case Nil
  then show ?case by simp
next
  case (Cons c cs)
  then obtain c' cs'' where "cs' = c' # cs''" by (cases cs') auto
  with Cons show ?case by (simp add: skel_list_simps)
qed

lemma skel_tag: "skel e = skel e' \<Longrightarrow> tag e = tag e'"
  by (simp add: skel_unfold[of e] skel_unfold[of e'])

lemma skel_update_at:
  assumes f: "\<And>x. tag (f x) = tag x" "\<And>x. children (f x) = children x"
  shows "skel (update_at q f e) = skel e"
proof (induction q arbitrary: e)
  case Nil
  show ?case by (simp add: skel_unfold[of "f e"] skel_unfold[of e] f)
next
  case (Cons i q)
  show ?case
  proof (cases "i < length (children e)")
    case True
    have "map skel ((children e)[i := update_at q f (children e ! i)]) = map skel (children e)"
      using True Cons.IH[of "children e ! i"] by (simp add: map_update list_update_same_conv)
    from skel_list_cong[OF this] True show ?thesis
      by (simp add: skel_unfold[of e] skel_unfold[of "Element _ _ _ _"])
  next
    case False
    then show ?thesis by (simp add: skel_unfold[of e] skel_unfold[of "Element _ _ _ _"])
  qed
qed

lemma find_skel:
  assumes "map (\<lambda>pe. (fst pe, tag (snd pe))) xs = map (\<lambda>pe. (fst pe, tag (snd pe))) ys"
  shows "map_option fst (List.find (has_tag t) xs) = map_option fst (List.find (has_tag t) ys)"
    and "map_option fst (List.find (tag_endswith t) xs) = map_option fst (List.find (tag_endswith t) ys)"
  using assms
proof (induction xs arbitrary: ys)
  case Nil
  { case 1 then show ?case by simp }
  { case 2 then show ?case by simp }
next
  case (Cons x xs)
  { case 1
    then obtain y ys' where "ys = y # ys'" by (cases ys) auto
    with 1 Cons.IH(1)[of ys'] show ?case by (auto simp: has_tag_def) }
  { case 2
    then obtain y ys' where "ys = y # ys'" by (cases ys) auto
    with 2 Cons.IH(2)[of ys'] show ?case by (auto simp: tag_endswith_def) }
qed


lemma skel_list_nonempty: "pt \<in> set (skel_list i cs) \<Longrightarrow> fst pt \<noteq> []"
proof (induction cs arbitrary: i)
  case Nil
  then show ?case by (simp add: skel_list_simps)
next
  case (Cons c cs)
  then show ?case by (auto simp: skel_list_simps)
qed

lemma skel_list_children:
  "filter (\<lambda>pt. length (fst pt) = 1) (skel_list i cs)
     = map (\<lambda>ic. ([fst ic], tag (snd ic))) (enumerate i cs)"
proof (induction cs arbitrary: i)
  case Nil
  then show ?case by (simp add: skel_list_simps)
next
  case (Cons c cs)
  have "filter (\<lambda>pt. length (fst pt) = 1)
          (map (\<lambda>pt. (i # fst pt, snd pt)) (skel_list 0 (children c))) = []"
    using skel_list_nonempty[of _ 0 "children c"] by (auto simp: filter_empty_conv)
  with Cons show ?case
    by (simp add: skel_list_simps skel_unfold[of c])
qed

lemma child_items_sk:
  "map (\<lambda>pe. (fst pe, tag (snd pe))) (child_items e)
     = filter (\<lambda>pt. length (fst pt) = 1) (skel_list 0 (children e))"
  using skel_list_children[of 0 "children e"]
  by (simp add: child_items_def case_prod_beta comp_def)

lemma find_mask_generator_skel:
  assumes "skel e = skel e'"
  shows "map_option fst (find_mask_generator e) = map_option fst (find_mask_generator e')"
proof -
  from assms have l: "skel_list 0 (children e) = skel_list 0 (children e')"
    by (simp add: skel_unfold[of e] skel_unfold[of e'])
  then have c: "map (\<lambda>pe. (fst pe, tag (snd pe))) (child_items e)
      = map (\<lambda>pe. (fst pe, tag (snd pe))) (child_items e')"
    by (simp add: child_items_sk)
  from l have l': "map (\<lambda>pe. (fst pe, tag (snd pe))) (iter_list 0 (children e))
      = map (\<lambda>pe. (fst pe, tag (snd pe))) (iter_list 0 (children e'))"
    by (simp add: skel_list_def)
  from assms have i: "map (\<lambda>pe. (fst pe, tag (snd pe))) (iter e)
      = map (\<lambda>pe. (fst pe, tag (snd pe))) (iter e')"
    by (simp add: skel_def)
  from find_skel(1)[OF c, of "''MaskGenerator''"] find_skel(1)[OF l', of "''MaskGenerator''"]
    find_skel(2)[OF i, of "''MaskGenerator''"]
  show ?thesis
    by (auto simp: find_mask_generator_def split: option.splits)
qed

lemma find_mask_generator_update:
  assumes f: "\<And>x. tag (f x) = tag x" "\<And>x. children (f x) = children x"
    and m: "find_mask_generator e = Some (q, n)"
  shows "find_mask_generator (update_at q f e) = Some (q, f n)"
proof -
  from find_mask_generator_skel[OF skel_update_at[OF f, of q e]] m
  obtain n' where 1: "find_mask_generator (update_at q f e) = Some (q, n')"
    by (cases "find_mask_generator (update_at q f e)") auto
  from find_mask_generator_Some[OF m] have "subelement e q = Some n" by simp
  from subelement_update_at[OF this, of f] find_mask_generator_Some[OF 1]
  have "n' = f n" by simp
  with 1 show ?thesis by simp
qed

lemma set_fades_frame [simp]:
  "tag (set_fades s x) = tag x" "children (set_fades s x) = children x"
  "etext (set_fades s x) = etext x"
  by (simp_all add: set_fades_def set_attr_def)

lemma get_attr_set_attr:
  "get_attr (set_attr k v x) k' = (if k' = k then Some v else get_attr x k')"
  by (simp add: get_attr_def set_attr_def update_conv')

lemma fade_attr_set_fades [simp]: "fade_attr (set_fades s x) = Some s"
  by (simp add: fade_attr_def set_fades_def get_attr_set_attr)

lemma get_attr_set_fades:
  "get_attr (set_fades s x) ''hfade'' = Some s" "get_attr (set_fades s x) ''vfade'' = Some s"
  "get_attr (set_fades s x) ''type'' = get_attr x ''type''"
  by (simp_all add: set_fades_def get_attr_set_attr)

lemma get_attr_update_at_type:
  "get_attr (update_at q (set_fades s) e) ''type'' = get_attr e ''type''"
  by (cases q) (simp_all add: get_attr_set_fades, simp add: get_attr_def)


lemma set_step_skipped: "skipped L c \<Longrightarrow> set_hardness_step L v tree (p, c) = Inr None"
  by (auto simp: skipped_def set_hardness_step_def Let_def split: option.splits)

lemma get_step_skipped: "skipped L c \<Longrightarrow> get_hardness_step L (p, c) = Inr None"
  by (auto simp: skipped_def get_hardness_step_def Let_def split: option.splits)

lemma get_step_no_fade: "no_fade L c \<Longrightarrow> get_hardness_step L (p, c) = Inr None"
  by (auto simp: no_fade_def get_hardness_step_def Let_def split: option.splits)

lemma set_step_usable:
  "usable L c brushdef brushopt \<Longrightarrow>
     set_hardness_step L v tree (p, c) =
       Inr (Some (update_at p
         (set_text (Some (ET_tostring L
            (update_at (fst brushopt) (set_fades (str_of_float L (py_max (Finite 0) (py_min (Finite 1) v)))) brushdef))))
         tree))"
  by (auto simp: usable_def set_hardness_step_def Let_def split: option.splits)

lemma get_step_usable:
  "usable L c brushdef brushopt \<Longrightarrow>
     get_hardness_step L (p, c) =
       (case fade_attr (snd brushopt) of
          None \<Rightarrow> Inr None
        | Some h \<Rightarrow> (case float_of_str L h of None \<Rightarrow> Inl ValueError | Some f \<Rightarrow> Inr (Some f)))"
  by (auto simp: usable_def get_hardness_step_def Let_def split: option.splits)

lemma set_step_Some:
  "set_hardness_step L v tree (p, c) = Inr (Some t') \<Longrightarrow>
     \<exists>brushdef brushopt. usable L c brushdef brushopt"
  by (auto simp: usable_def set_hardness_step_def Let_def split: option.splits if_splits)


lemma items_set: "it \<in> set (items i cs) \<Longrightarrow> snd it \<in> set cs \<and> tag (snd it) = ''param''"
  by (auto simp: items_def has_tag_def in_set_enumerate_eq)

lemma findall_items: "findall ''param'' e = items 0 (children e)"
  by (simp add: findall_def items_def child_items_def case_prod_unfold)

lemma findall_children:
  assumes "children tree = A @ c # B" "tag c = ''param''"
  shows "findall ''param'' tree = items 0 A @ ([length A], c) # items (Suc (length A)) B"
  using assms by (simp add: findall_items items_def enumerate_append_eq has_tag_def)

lemma findall_in_children: "it \<in> set (findall ''param'' e) \<Longrightarrow> snd it \<in> set (children e)"
  using items_set[of it 0 "children e"] by (simp add: findall_items)

lemma children_update_at:
  "children tree = A @ c # B \<Longrightarrow> children (update_at [length A] g tree) = A @ g c # B"
  by simp

lemma hardness_clamp_value:
  "py_max (Finite 0) (py_min (Finite 1) v) =
     (case v of Finite r \<Rightarrow> Finite (max 0 (min 1 r)) | PosInf \<Rightarrow> Finite 1
      | NegInf \<Rightarrow> Finite 0 | NaN \<Rightarrow> Finite 1)"
  by (cases v) (auto simp: py_max_def py_min_def max_def min_def)

lemma hardness_clamp_range:
  "fle (Finite 0) (py_max (Finite 0) (py_min (Finite 1) v))
   \<and> fle (py_max (Finite 0) (py_min (Finite 1) v)) (Finite 1)"
  by (cases v) (auto simp: py_max_def py_min_def fle_def feq_def)

lemma usable_parts:
  assumes "usable L c brushdef brushopt"
  shows "get_attr c ''name'' = Some ''brush_definition''"
    and "\<exists>t. etext c = Some t \<and> t \<noteq> [] \<and> ET_fromstring L t = Some brushdef"
    and "get_attr brushdef ''type'' = Some ''auto_brush''"
    and "\<exists>pe \<in> set (iter brushdef). suffix ''MaskGenerator'' (tag (snd pe))"
proof -
  from assms show "get_attr c ''name'' = Some ''brush_definition''"
    "get_attr brushdef ''type'' = Some ''auto_brush''"
    by (simp_all add: usable_def)
  from assms show "\<exists>t. etext c = Some t \<and> t \<noteq> [] \<and> ET_fromstring L t = Some brushdef"
    by (cases "etext c") (simp_all add: usable_def)
  from assms have "find_mask_generator brushdef \<noteq> None" by (simp add: usable_def)
  then show "\<exists>pe \<in> set (iter brushdef). suffix ''MaskGenerator'' (tag (snd pe))"
    by (simp add: find_mask_generator_None)
qed

lemma set_loop_Some:
  assumes "first_result (set_hardness_step L v tree) (findall ''param'' tree) = Inr (Some t')"
  shows "\<exists>c brushdef brushopt. c \<in> set (children tree) \<and> tag c = ''param''
      \<and> usable L c brushdef brushopt"
proof -
  from first_result_Some[OF assms] obtain it where it: "it \<in> set (findall ''param'' tree)"
      "set_hardness_step L v tree it = Inr (Some t')" by blast
  from it(1) have c: "snd it \<in> set (children tree)" "tag (snd it) = ''param''"
    using items_set[of it 0 "children tree"] by (simp_all add: findall_items)
  from it(2) set_step_Some[of L v tree "fst it" "snd it" t']
  obtain brushdef brushopt where "usable L (snd it) brushdef brushopt" by auto
  with c show ?thesis by blast
qed

lemma set_try_none:
  assumes view: "active_view d = Some vw" and parse: "ET_fromstring L (preset_xml vw) = Some tree"
    and no: "\<And>c brushdef brushopt. c \<in> set (children tree) \<Longrightarrow> tag c = ''param'' \<Longrightarrow>
           \<not> usable L c brushdef brushopt"
  shows "set_brush_hardness L v d = d"
proof -
  have same: "d\<lparr>active_view := Some vw\<rparr> = d" using view by (cases d) simp
  have "first_result (set_hardness_step L v tree) (findall ''param'' tree) \<noteq> Inr (Some t')" for t'
    using set_loop_Some[of L v tree t'] no by blast
  then have "set_hardness_try L v vw = Inr vw \<or> (\<exists>e. set_hardness_try L v vw = Inl e)"
    using parse by (auto simp: set_hardness_try_def split: sum.splits option.splits)
  then have "set_brush_hardness L v d = d\<lparr>active_view := Some vw\<rparr> \<or> set_brush_hardness L v d = d"
    using view by (auto simp: set_brush_hardness_def)
  then show ?thesis by (simp only: same simp_thms)
qed

lemma set_brush_hardness_frame:
  assumes "\<forall>vw tree c brushdef brushopt.
      active_view d = Some vw \<and> ET_fromstring L (preset_xml vw) = Some tree
      \<and> c \<in> set (children tree) \<and> tag c = ''param'' \<longrightarrow> \<not> usable L c brushdef brushopt"
  shows "set_brush_hardness L v d = d"
proof (cases "active_view d")
  case None
  then show ?thesis by (simp add: set_brush_hardness_def)
next
  case (Some vw)
  show ?thesis
  proof (cases "ET_fromstring L (preset_xml vw)")
    case None
    with Some show ?thesis by (simp add: set_brush_hardness_def set_hardness_try_def)
  next
    case (Some tree)
    show ?thesis
    proof (rule set_try_none[OF \<open>active_view d = Some vw\<close> Some])
      fix c brushdef brushopt assume "c \<in> set (children tree)" "tag c = ''param''"
      with assms \<open>active_view d = Some vw\<close> Some show "\<not> usable L c brushdef brushopt" by blast
    qed
  qed
qed

lemma set_pre:
  assumes "\<forall>c \<in> set A. tag c = ''param'' \<longrightarrow> skipped L c"
  shows "\<forall>it \<in> set (items i A). set_hardness_step L v tree it = Inr None"
proof
  fix it assume "it \<in> set (items i A)"
  from items_set[OF this] assms have "skipped L (snd it)" by simp
  from set_step_skipped[OF this, of v tree "fst it"] show "set_hardness_step L v tree it = Inr None"
    by simp
qed

lemma get_pre:
  assumes "\<forall>c \<in> set A. tag c = ''param'' \<longrightarrow> skipped L c \<or> no_fade L c"
  shows "\<forall>it \<in> set (items i A). get_hardness_step L it = Inr None"
proof
  fix it assume "it \<in> set (items i A)"
  from items_set[OF this] assms have "skipped L (snd it) \<or> no_fade L (snd it)" by simp
  with get_step_skipped[of L "snd it" "fst it"] get_step_no_fade[of L "snd it" "fst it"]
  show "get_hardness_step L it = Inr None" by auto
qed

lemma set_loop_result:
  assumes ch: "children tree = A @ param # B" and tg: "tag param = ''param''"
    and pre: "\<forall>c \<in> set A. tag c = ''param'' \<longrightarrow> skipped L c"
    and us: "usable L param brushdef brushopt"
  shows "first_result (set_hardness_step L v tree) (findall ''param'' tree) =
     Inr (Some (update_at [length A]
         (set_text (Some (ET_tostring L
            (update_at (fst brushopt) (set_fades (str_of_float L (py_max (Finite 0) (py_min (Finite 1) v)))) brushdef))))
         tree))"
proof -
  from first_result_hit[OF set_pre[OF pre, of 0 v tree] set_step_usable[OF us, of v tree "[length A]"]]
  show ?thesis by (simp add: findall_children[OF ch tg])
qed

lemma set_result:
  assumes view: "active_view d = Some vw" and parse: "ET_fromstring L (preset_xml vw) = Some tree"
    and ch: "children tree = A @ param # B" and tg: "tag param = ''param''"
    and pre: "\<forall>c \<in> set A. tag c = ''param'' \<longrightarrow> skipped L c"
    and us: "usable L param brushdef brushopt"
  shows "set_brush_hardness L v d =
     d\<lparr>active_view := Some (vw\<lparr>preset_xml := ET_tostring L (update_at [length A]
         (set_text (Some (ET_tostring L
            (update_at (fst brushopt) (set_fades (str_of_float L (py_max (Finite 0) (py_min (Finite 1) v)))) brushdef))))
         tree),
       fromXML_calls := Suc (fromXML_calls vw)\<rparr>)\<rparr>"
  using view parse set_loop_result[OF ch tg pre us, of v]
  by (simp add: set_brush_hardness_def set_hardness_try_def)

lemma get_result:
  assumes view: "active_view d = Some vw" and parse: "ET_fromstring L (preset_xml vw) = Some tree"
    and ch: "children tree = A @ param # B" and tg: "tag param = ''param''"
    and pre: "\<forall>c \<in> set A. tag c = ''param'' \<longrightarrow> skipped L c \<or> no_fade L c"
    and us: "usable L param brushdef brushopt"
    and fa: "fade_attr (snd brushopt) = Some h"
  shows "get_brush_hardness L d = float_of_str L h"
proof -
  note p = get_pre[OF pre, of 0]
  show ?thesis
  proof (cases "float_of_str L h")
    case None
    with get_step_usable[OF us, of "[length A]"] fa
    have "get_hardness_step L ([length A], param) = Inl ValueError" by simp
    with p have "first_result (get_hardness_step L) (findall ''param'' tree) = Inl ValueError"
      by (simp add: findall_children[OF ch tg] first_result_skip)
    with view parse None show ?thesis
      by (simp add: get_brush_hardness_def get_hardness_try_def)
  next
    case (Some f)
    with get_step_usable[OF us, of "[length A]"] fa
    have "get_hardness_step L ([length A], param) = Inr (Some f)" by simp
    from first_result_hit[OF p this]
    have "first_result (get_hardness_step L) (findall ''param'' tree) = Inr (Some f)"
      by (simp add: findall_children[OF ch tg])
    with view parse Some show ?thesis
      by (simp add: get_brush_hardness_def get_hardness_try_def)
  qed
qed



text \<open>
  C5, as stated, includes the brush definition that "has no MaskGenerator node". This
  fails: for an \<^verbatim>\<open>auto_brush\<close> definition with no element tagged \<^verbatim>\<open>MaskGenerator\<close> but one
  tagged \<^verbatim>\<open>KisMaskGenerator\<close>, the last resort of \<^verbatim>\<open>_find_mask_generator\<close> returns that
  element, and \<^verbatim>\<open>_set_brush_hardness\<close> rewrites it and calls \<^verbatim>\<open>fromXML\<close>.
\<close>

theorem set_brush_hardness_kis_counterexample:
  "active_view kis_docker = Some (example_view\<lparr>preset_xml := kis_preset_text\<rparr>)
   \<and> ET_fromstring kis_lib kis_preset_text = Some kis_preset_tree
   \<and> children kis_preset_tree =
       [Element ''param'' [(''name'', ''brush_definition''), (''type'', ''string'')]
          (Some kis_brushdef_text) []]
   \<and> ET_fromstring kis_lib kis_brushdef_text = Some kis_brushdef_tree
   \<and> map (\<lambda>pe. tag (snd pe)) (iter kis_brushdef_tree) = [''Brush'', ''KisMaskGenerator'']
   \<and> set_brush_hardness kis_lib (Finite (1 / 2)) kis_docker =
       kis_docker\<lparr>active_view :=
         Some (example_view\<lparr>preset_xml := kis_preset_text_h, fromXML_calls := 1\<rparr>)\<rparr>
   \<and> set_brush_hardness kis_lib (Finite (1 / 2)) kis_docker \<noteq> kis_docker"
proof -
  have d: "kis_brushdef_text \<noteq> kis_preset_text"
    by (simp add: kis_brushdef_text_def kis_preset_text_def)
  have p: "ET_fromstring kis_lib kis_preset_text = Some kis_preset_tree"
    "ET_fromstring kis_lib kis_brushdef_text = Some kis_brushdef_tree"
    by (simp_all add: kis_lib_def d)
  have m: "find_mask_generator kis_brushdef_tree =
      Some ([0], Element ''KisMaskGenerator'' [(''hfade'', ''0.3''), (''vfade'', ''0.3'')] None [])"
    by (simp add: find_mask_generator_def kis_brushdef_tree_def child_items_def has_tag_def
        tag_endswith_def enumerate_eq_zip suffix_to_prefix)
  have c: "py_max (Finite 0) (py_min (Finite 1) (Finite (1 / 2))) = Finite (1 / 2)"
    by (simp add: py_max_def py_min_def)
  have pr: "ET_tostring kis_lib kis_preset_tree_h = kis_preset_text_h"
    "str_of_float kis_lib (Finite (1 / 2)) = ''0.5''"
    by (simp_all add: kis_lib_def kis_preset_tree_h_def kis_brushdef_tree_h_def)
  have e: "kis_brushdef_text \<noteq> []" by (simp add: kis_brushdef_text_def)
  have step: "set_hardness_step kis_lib (Finite (1 / 2)) kis_preset_tree
      ([0], Element ''param'' [(''name'', ''brush_definition''), (''type'', ''string'')]
          (Some kis_brushdef_text) []) = Inr (Some kis_preset_tree_h)"
    by (simp add: set_hardness_step_def get_attr_def e p(2) m c pr(2) Let_def)
      (simp add: kis_brushdef_tree_def kis_preset_tree_def kis_preset_tree_h_def set_text_def
        set_fades_def set_attr_def kis_lib_def kis_brushdef_tree_h_def)
  have f: "findall ''param'' kis_preset_tree =
      [([0], Element ''param'' [(''name'', ''brush_definition''), (''type'', ''string'')]
          (Some kis_brushdef_text) [])]"
    by (simp add: findall_def child_items_def kis_preset_tree_def has_tag_def enumerate_eq_zip)
  have s: "set_brush_hardness kis_lib (Finite (1 / 2)) kis_docker =
       kis_docker\<lparr>active_view :=
         Some (example_view\<lparr>preset_xml := kis_preset_text_h, fromXML_calls := 1\<rparr>)\<rparr>"
    by (simp add: set_brush_hardness_def set_hardness_try_def kis_docker_def example_view_def
        p(1) f step pr(1))
  have n: "kis_docker\<lparr>active_view :=
         Some (example_view\<lparr>preset_xml := kis_preset_text_h, fromXML_calls := 1\<rparr>)\<rparr> \<noteq> kis_docker"
    by (simp add: kis_docker_def example_docker_def example_view_def)
  have k: "children kis_preset_tree =
       [Element ''param'' [(''name'', ''brush_definition''), (''type'', ''string'')]
          (Some kis_brushdef_text) []]"
    by (simp add: kis_preset_tree_def)
  have i: "map (\<lambda>pe. tag (snd pe)) (iter kis_brushdef_tree) = [''Brush'', ''KisMaskGenerator'']"
    by (simp add: kis_brushdef_tree_def)
  have v: "active_view kis_docker = Some (example_view\<lparr>preset_xml := kis_preset_text\<rparr>)"
    by (simp add: kis_docker_def)
  from v p k i s n show ?thesis by (simp only: simp_thms)
qed

text \<open>
  C5, amended: call a \<^verbatim>\<open>param\<close> child of the preset's root usable when it is named
  \<^verbatim>\<open>brush_definition\<close>, its text is not empty and parses to a definition of type
  \<^verbatim>\<open>auto_brush\<close> in which \<^verbatim>\<open>_find_mask_generator\<close> finds a node. When no \<^verbatim>\<open>param\<close> child is
  usable, \<^verbatim>\<open>_set_brush_hardness\<close> leaves the whole state as it is; in particular the
  preset's XML and the count of \<^verbatim>\<open>fromXML\<close> calls are unchanged. A usable child has an
  element whose tag ends with \<^verbatim>\<open>MaskGenerator\<close> in its definition; so the state is
  unchanged when no parameter is named \<^verbatim>\<open>brush_definition\<close>, or the definition is not an
  \<^verbatim>\<open>auto_brush\<close>, or no tag of the definition ends with \<^verbatim>\<open>MaskGenerator\<close>.
\<close>

theorem set_brush_hardness_leaves_preset:
  "((\<forall>vw tree c brushdef brushopt.
      active_view d = Some vw \<and> ET_fromstring L (preset_xml vw) = Some tree
      \<and> c \<in> set (children tree) \<and> tag c = ''param'' \<longrightarrow> \<not> usable L c brushdef brushopt)
    \<longrightarrow> set_brush_hardness L v d = d)
   \<and> (\<forall>c brushdef brushopt. usable L c brushdef brushopt \<longrightarrow>
         get_attr c ''name'' = Some ''brush_definition''
       \<and> (\<exists>t. etext c = Some t \<and> t \<noteq> [] \<and> ET_fromstring L t = Some brushdef)
       \<and> get_attr brushdef ''type'' = Some ''auto_brush''
       \<and> (\<exists>pe \<in> set (iter brushdef). suffix ''MaskGenerator'' (tag (snd pe))))"
  using set_brush_hardness_frame[of d L v] usable_parts[of L] by blast

text \<open>
  C2: when the loop of \<^verbatim>\<open>_set_brush_hardness(v)\<close> reaches a usable \<^verbatim>\<open>param\<close> element (every
  \<^verbatim>\<open>param\<close> before it is passed over), the preset receives, through one \<^verbatim>\<open>fromXML\<close> call,
  the tree in which that element's text is the printed brush definition whose mask
  generator node carries \<^verbatim>\<open>hfade\<close> and \<^verbatim>\<open>vfade\<close> equal to the string of the same value
  \<open>c\<close> = \<^verbatim>\<open>max(0.0, min(1.0, v))\<close>. For a finite \<open>v\<close> that value is the number \<open>v\<close> clamped
  to [0, 1]; it is 1.0 for plus infinity and for NaN and 0.0 for minus infinity; so it
  always lies between 0.0 and 1.0.
\<close>

theorem set_brush_hardness_writes_clamped:
  assumes view: "active_view d = Some vw" and parse: "ET_fromstring L (preset_xml vw) = Some tree"
    and ch: "children tree = A @ param # B" and tg: "tag param = ''param''"
    and pre: "\<forall>c \<in> set A. tag c = ''param'' \<longrightarrow> skipped L c"
    and us: "usable L param brushdef (q, brushopt)"
    and c: "c = py_max (Finite 0) (py_min (Finite 1) v)"
    and s: "s = str_of_float L c"
    and bd': "brushdef' = update_at q (set_fades s) brushdef"
    and tr': "tree' = update_at [length A] (set_text (Some (ET_tostring L brushdef'))) tree"
  shows "set_brush_hardness L v d =
       d\<lparr>active_view := Some (vw\<lparr>preset_xml := ET_tostring L tree',
                                   fromXML_calls := Suc (fromXML_calls vw)\<rparr>)\<rparr>
     \<and> children tree' = A @ set_text (Some (ET_tostring L brushdef')) param # B
     \<and> find_mask_generator brushdef' = Some (q, set_fades s brushopt)
     \<and> get_attr (set_fades s brushopt) ''hfade'' = Some s
     \<and> get_attr (set_fades s brushopt) ''vfade'' = Some s
     \<and> c = (case v of Finite r \<Rightarrow> Finite (max 0 (min 1 r)) | PosInf \<Rightarrow> Finite 1
            | NegInf \<Rightarrow> Finite 0 | NaN \<Rightarrow> Finite 1)
     \<and> fle (Finite 0) c \<and> fle c (Finite 1)"
proof -
  from us have m: "find_mask_generator brushdef = Some (q, brushopt)" by (simp add: usable_def)
  have "find_mask_generator brushdef' = Some (q, set_fades s brushopt)"
    unfolding bd' by (rule find_mask_generator_update[OF _ _ m]) simp_all
  moreover have "children tree' = A @ set_text (Some (ET_tostring L brushdef')) param # B"
    unfolding tr' using ch by simp
  moreover have "set_brush_hardness L v d =
       d\<lparr>active_view := Some (vw\<lparr>preset_xml := ET_tostring L tree',
                                   fromXML_calls := Suc (fromXML_calls vw)\<rparr>)\<rparr>"
    using set_result[OF view parse ch tg pre us, of v] c s bd' tr' by simp
  moreover have "c = (case v of Finite r \<Rightarrow> Finite (max 0 (min 1 r)) | PosInf \<Rightarrow> Finite 1
            | NegInf \<Rightarrow> Finite 0 | NaN \<Rightarrow> Finite 1)"
    unfolding c by (rule hardness_clamp_value)
  moreover have "fle (Finite 0) c \<and> fle c (Finite 1)"
    unfolding c by (rule hardness_clamp_range)
  ultimately show ?thesis by (simp add: get_attr_set_fades)
qed


text \<open>
  C1, amended: let the preset's XML parse, let \<open>param\<close> be a usable \<^verbatim>\<open>param\<close> child of its
  root, and let every \<^verbatim>\<open>param\<close> child before it be passed over by the loop (so none of them
  has a text that fails to parse). If the library gives back what was printed (parsing
  the printed brush definition and the printed preset yields the trees printed, the
  printed definition is not empty, and \<^verbatim>\<open>float(str(c))\<close> is \<open>c\<close> for the clamped value \<open>c\<close>),
  then \<^verbatim>\<open>_get_brush_hardness\<close> after \<^verbatim>\<open>_set_brush_hardness(v)\<close> returns
  \<^verbatim>\<open>max(0.0, min(1.0, v))\<close>: for a finite \<open>v\<close> the number \<open>v\<close> clamped to [0, 1], 1.0 for
  plus infinity and for NaN, 0.0 for minus infinity.
\<close>

theorem hardness_set_then_get:
  assumes view: "active_view d = Some vw" and parse: "ET_fromstring L (preset_xml vw) = Some tree"
    and ch: "children tree = A @ param # B" and tg: "tag param = ''param''"
    and pre: "\<forall>c \<in> set A. tag c = ''param'' \<longrightarrow> skipped L c"
    and us: "usable L param brushdef (q, brushopt)"
    and s: "s = str_of_float L (py_max (Finite 0) (py_min (Finite 1) v))"
    and bd': "brushdef' = update_at q (set_fades s) brushdef"
    and tr': "tree' = update_at [length A] (set_text (Some (ET_tostring L brushdef'))) tree"
    and rt1: "ET_tostring L brushdef' \<noteq> []"
      "ET_fromstring L (ET_tostring L brushdef') = Some brushdef'"
    and rt2: "ET_fromstring L (ET_tostring L tree') = Some tree'"
    and rt3: "float_of_str L s = Some (py_max (Finite 0) (py_min (Finite 1) v))"
  shows "get_brush_hardness L (set_brush_hardness L v d)
       = Some (py_max (Finite 0) (py_min (Finite 1) v))
     \<and> py_max (Finite 0) (py_min (Finite 1) v) =
         (case v of Finite r \<Rightarrow> Finite (max 0 (min 1 r)) | PosInf \<Rightarrow> Finite 1
          | NegInf \<Rightarrow> Finite 0 | NaN \<Rightarrow> Finite 1)"
proof -
  let ?vw' = "vw\<lparr>preset_xml := ET_tostring L tree', fromXML_calls := Suc (fromXML_calls vw)\<rparr>"
  let ?d' = "d\<lparr>active_view := Some ?vw'\<rparr>"
  let ?param' = "set_text (Some (ET_tostring L brushdef')) param"
  have set: "set_brush_hardness L v d = ?d'"
    using set_result[OF view parse ch tg pre us, of v] s bd' tr' by simp
  from us have m: "find_mask_generator brushdef = Some (q, brushopt)"
    and ty: "get_attr brushdef ''type'' = Some ''auto_brush''"
    and nm: "get_attr param ''name'' = Some ''brush_definition''"
    by (simp_all add: usable_def)
  have m': "find_mask_generator brushdef' = Some (q, set_fades s brushopt)"
    unfolding bd' by (rule find_mask_generator_update[OF _ _ m]) simp_all
  have ty': "get_attr brushdef' ''type'' = Some ''auto_brush''"
    unfolding bd' using ty by (simp add: get_attr_update_at_type)
  have us': "usable L ?param' brushdef' (q, set_fades s brushopt)"
    using nm rt1 m' ty' by (simp add: usable_def set_text_def get_attr_def)
  have ch': "children tree' = A @ ?param' # B"
    unfolding tr' using ch by simp
  have tg': "tag ?param' = ''param''" using tg by (simp add: set_text_def)
  have pre': "\<forall>c \<in> set A. tag c = ''param'' \<longrightarrow> skipped L c \<or> no_fade L c"
    using pre by blast
  have v': "active_view ?d' = Some ?vw'" by simp
  have p': "ET_fromstring L (preset_xml ?vw') = Some tree'" using rt2 by simp
  have "get_brush_hardness L ?d' = float_of_str L s"
    by (rule get_result[OF v' p' ch' tg' pre' us']) simp
  with set rt3 hardness_clamp_value[of v] show ?thesis by simp
qed

lemma example_strings_distinct:
  "brushdef_text \<noteq> preset_text"
  "preset_text_1 \<noteq> preset_text"
  "preset_text_1 \<noteq> brushdef_text"
  "brushdef_text_1 \<noteq> preset_text"
  "brushdef_text_1 \<noteq> brushdef_text"
  "brushdef_text_1 \<noteq> preset_text_1"
  "preset_text_h \<noteq> preset_text"
  "preset_text_h \<noteq> brushdef_text"
  "preset_text_h \<noteq> preset_text_1"
  "preset_text_h \<noteq> brushdef_text_1"
  "brushdef_text_h \<noteq> preset_text"
  "brushdef_text_h \<noteq> brushdef_text"
  "brushdef_text_h \<noteq> preset_text_1"
  "brushdef_text_h \<noteq> brushdef_text_1"
  "brushdef_text_h \<noteq> preset_text_h"
  "broken_preset_text \<noteq> preset_text"
  "broken_preset_text \<noteq> brushdef_text"
  "broken_preset_text \<noteq> preset_text_1"
  "broken_preset_text \<noteq> brushdef_text_1"
  "broken_preset_text \<noteq> preset_text_h"
  "broken_preset_text \<noteq> brushdef_text_h"
  "''oops'' \<noteq> preset_text"
  "''oops'' \<noteq> brushdef_text"
  "''oops'' \<noteq> preset_text_1"
  "''oops'' \<noteq> brushdef_text_1"
  "''oops'' \<noteq> preset_text_h"
  "''oops'' \<noteq> brushdef_text_h"
  "''oops'' \<noteq> broken_preset_text"
  "brushdef_text \<noteq> []"
  "brushdef_text_1 \<noteq> []"
  "brushdef_text_h \<noteq> []"
  by (simp_all add: brushdef_text_def preset_text_def preset_text_1_def brushdef_text_1_def
      preset_text_h_def brushdef_text_h_def broken_preset_text_def)

lemma example_parse:
  "ET_fromstring example_lib preset_text = Some preset_tree"
  "ET_fromstring example_lib brushdef_text = Some brushdef_tree"
  "ET_fromstring example_lib preset_text_1 = Some preset_tree_1"
  "ET_fromstring example_lib brushdef_text_1 = Some brushdef_tree_1"
  "ET_fromstring example_lib preset_text_h = Some preset_tree_h"
  "ET_fromstring example_lib brushdef_text_h = Some brushdef_tree_h"
  "ET_fromstring example_lib broken_preset_text = Some broken_preset_tree"
  "ET_fromstring example_lib ''oops'' = None"
  by (simp_all add: example_lib_def example_strings_distinct)

lemma example_trees_distinct:
  "brushdef_tree_h \<noteq> brushdef_tree_1" "brushdef_tree_h \<noteq> preset_tree_1"
  "preset_tree_h \<noteq> brushdef_tree_1" "preset_tree_h \<noteq> preset_tree_1"
  "preset_tree_1 \<noteq> brushdef_tree_1" "preset_tree_h \<noteq> brushdef_tree_h"
  by (simp_all add: brushdef_tree_h_def brushdef_tree_1_def preset_tree_1_def preset_tree_h_def
      example_strings_distinct)

lemma example_print:
  "ET_tostring example_lib brushdef_tree_1 = brushdef_text_1"
  "ET_tostring example_lib preset_tree_1 = preset_text_1"
  "ET_tostring example_lib brushdef_tree_h = brushdef_text_h"
  "ET_tostring example_lib preset_tree_h = preset_text_h"
  by (simp_all add: example_lib_def example_trees_distinct)

lemma example_clamps:
  "py_max (Finite 0) (py_min (Finite 1) (Finite 2)) = Finite 1"
  "py_max (Finite 0) (py_min (Finite 1) (Finite (1 / 2))) = Finite (1 / 2)"
  by (simp_all add: py_max_def py_min_def)

lemma example_floats:
  "str_of_float example_lib (Finite 1) = ''1.0''"
  "str_of_float example_lib (Finite (1 / 2)) = ''0.5''"
  "float_of_str example_lib ''1.0'' = Some (Finite 1)"
  "float_of_str example_lib ''0.5'' = Some (Finite (1 / 2))"
  "float_of_str example_lib ''0.3'' = Some (Finite (5404319552844595 / 18014398509481984))"
  by (simp_all add: example_lib_def)

lemma example_mask_generator:
  "find_mask_generator brushdef_tree =
     Some ([0], Element ''MaskGenerator'' [(''hfade'', ''0.3''), (''vfade'', ''0.3'')] None [])"
  by (simp add: find_mask_generator_def brushdef_tree_def child_items_def has_tag_def
      enumerate_eq_zip)

lemma example_usable:
  "usable example_lib
     (Element ''param'' [(''name'', ''brush_definition''), (''type'', ''string'')]
        (Some brushdef_text) [])
     brushdef_tree
     ([0], Element ''MaskGenerator'' [(''hfade'', ''0.3''), (''vfade'', ''0.3'')] None [])"
  by (simp add: usable_def get_attr_def example_parse example_strings_distinct
      example_mask_generator) (simp add: brushdef_tree_def)

lemma example_updates:
  "update_at [0] (set_fades ''1.0'') brushdef_tree = brushdef_tree_1"
  "update_at [0] (set_text (Some brushdef_text_1)) preset_tree = preset_tree_1"
  "update_at [0] (set_fades ''0.5'') brushdef_tree = brushdef_tree_h"
  "update_at [0] (set_text (Some brushdef_text_h)) preset_tree = preset_tree_h"
  by (simp_all add: brushdef_tree_def brushdef_tree_1_def preset_tree_def preset_tree_1_def
      brushdef_tree_h_def preset_tree_h_def set_fades_def set_attr_def set_text_def)

lemma example_param_tag:
  "tag (Element ''param'' [(''name'', ''brush_definition''), (''type'', ''string'')]
        (Some brushdef_text) []) = ''param''"
  by simp

lemma example_children:
  "children preset_tree = [] @
      Element ''param'' [(''name'', ''brush_definition''), (''type'', ''string'')]
        (Some brushdef_text) [] # []"
  by (simp add: preset_tree_def)

lemma example_view_facts:
  "active_view painting_docker = Some example_view"
  "ET_fromstring example_lib (preset_xml example_view) = Some preset_tree"
  by (simp_all add: painting_docker_def example_view_def example_parse)

lemma example_instances_1:
  "Finite 1 = py_max (Finite 0) (py_min (Finite 1) (Finite 2))"
  "''1.0'' = str_of_float example_lib (Finite 1)"
  "brushdef_tree_1 = update_at [0] (set_fades ''1.0'') brushdef_tree"
  "preset_tree_1 =
     update_at [length ([] :: xml list)]
       (set_text (Some (ET_tostring example_lib brushdef_tree_1))) preset_tree"
proof -
  show "Finite 1 = py_max (Finite 0) (py_min (Finite 1) (Finite 2))"
    by (rule example_clamps(1)[symmetric])
  show "''1.0'' = str_of_float example_lib (Finite 1)"
    by (rule example_floats(1)[symmetric])
  show "brushdef_tree_1 = update_at [0] (set_fades ''1.0'') brushdef_tree"
    by (rule example_updates(1)[symmetric])
  show "preset_tree_1 =
     update_at [length ([] :: xml list)]
       (set_text (Some (ET_tostring example_lib brushdef_tree_1))) preset_tree"
    by (simp only: list.size example_print example_updates(2))
qed

lemma example_instances_h:
  "Finite (1 / 2) = py_max (Finite 0) (py_min (Finite 1) (Finite (1 / 2)))"
  "''0.5'' = str_of_float example_lib (Finite (1 / 2))"
  "brushdef_tree_h = update_at [0] (set_fades ''0.5'') brushdef_tree"
  "preset_tree_h =
     update_at [length ([] :: xml list)]
       (set_text (Some (ET_tostring example_lib brushdef_tree_h))) preset_tree"
proof -
  show "Finite (1 / 2) = py_max (Finite 0) (py_min (Finite 1) (Finite (1 / 2)))"
    by (rule example_clamps(2)[symmetric])
  show "''0.5'' = str_of_float example_lib (Finite (1 / 2))"
    by (rule example_floats(2)[symmetric])
  show "brushdef_tree_h = update_at [0] (set_fades ''0.5'') brushdef_tree"
    by (rule example_updates(3)[symmetric])
  show "preset_tree_h =
     update_at [length ([] :: xml list)]
       (set_text (Some (ET_tostring example_lib brushdef_tree_h))) preset_tree"
    by (simp only: list.size example_print example_updates(4))
qed

lemma no_skipped_before: "\<forall>c \<in> set ([] :: xml list). tag c = ''param'' \<longrightarrow> skipped L c"
  by simp

theorem set_brush_hardness_writes_clamped_witness:
  "set_brush_hardness example_lib (Finite (1 / 2)) painting_docker =
     painting_docker\<lparr>active_view :=
       Some (example_view\<lparr>preset_xml := preset_text_h, fromXML_calls := 1\<rparr>)\<rparr>
   \<and> find_mask_generator brushdef_tree_h =
       Some ([0], Element ''MaskGenerator'' [(''hfade'', ''0.5''), (''vfade'', ''0.5'')] None [])
   \<and> set_brush_hardness example_lib (Finite 2) painting_docker =
     painting_docker\<lparr>active_view :=
       Some (example_view\<lparr>preset_xml := preset_text_1, fromXML_calls := 1\<rparr>)\<rparr>
   \<and> find_mask_generator brushdef_tree_1 =
       Some ([0], Element ''MaskGenerator'' [(''hfade'', ''1.0''), (''vfade'', ''1.0'')] None [])"
proof -
  note h = set_brush_hardness_writes_clamped[OF example_view_facts example_children
      example_param_tag no_skipped_before example_usable example_instances_h]
  note o = set_brush_hardness_writes_clamped[OF example_view_facts example_children
      example_param_tag no_skipped_before example_usable example_instances_1]
  have f: "set_fades ''0.5''
      (Element ''MaskGenerator'' [(''hfade'', ''0.3''), (''vfade'', ''0.3'')] None [])
      = Element ''MaskGenerator'' [(''hfade'', ''0.5''), (''vfade'', ''0.5'')] None []"
    "set_fades ''1.0''
      (Element ''MaskGenerator'' [(''hfade'', ''0.3''), (''vfade'', ''0.3'')] None [])
      = Element ''MaskGenerator'' [(''hfade'', ''1.0''), (''vfade'', ''1.0'')] None []"
    by (simp_all add: set_fades_def set_attr_def)
  from h o show ?thesis
    by (simp add: example_print example_view_def f)
qed


theorem hardness_set_then_get_witness:
  "get_brush_hardness example_lib
     (set_brush_hardness example_lib (Finite (1 / 2)) painting_docker) = Some (Finite (1 / 2))
   \<and> get_brush_hardness example_lib
     (set_brush_hardness example_lib (Finite 2) painting_docker) = Some (Finite 1)"
proof -
  have sh: "''0.5'' = str_of_float example_lib (py_max (Finite 0) (py_min (Finite 1) (Finite (1 / 2))))"
    by (simp only: example_clamps example_floats)
  have s1: "''1.0'' = str_of_float example_lib (py_max (Finite 0) (py_min (Finite 1) (Finite 2)))"
    by (simp only: example_clamps example_floats)
  have rth: "ET_tostring example_lib brushdef_tree_h \<noteq> []"
    "ET_fromstring example_lib (ET_tostring example_lib brushdef_tree_h) = Some brushdef_tree_h"
    "ET_fromstring example_lib (ET_tostring example_lib preset_tree_h) = Some preset_tree_h"
    "float_of_str example_lib ''0.5''
       = Some (py_max (Finite 0) (py_min (Finite 1) (Finite (1 / 2))))"
    by (simp_all only: example_print example_parse example_strings_distinct example_clamps
        example_floats not_False_eq_True)
  have rt1: "ET_tostring example_lib brushdef_tree_1 \<noteq> []"
    "ET_fromstring example_lib (ET_tostring example_lib brushdef_tree_1) = Some brushdef_tree_1"
    "ET_fromstring example_lib (ET_tostring example_lib preset_tree_1) = Some preset_tree_1"
    "float_of_str example_lib ''1.0''
       = Some (py_max (Finite 0) (py_min (Finite 1) (Finite 2)))"
    by (simp_all only: example_print example_parse example_strings_distinct example_clamps
        example_floats not_False_eq_True)
  from hardness_set_then_get[OF example_view_facts example_children
      example_param_tag no_skipped_before example_usable sh example_instances_h(3,4) rth]
    hardness_set_then_get[OF example_view_facts example_children
      example_param_tag no_skipped_before example_usable s1 example_instances_1(3,4) rt1]
  show ?thesis by (simp add: example_clamps)
qed


theorem set_brush_hardness_leaves_preset_witness:
  "set_brush_hardness example_lib (Finite 2)
     (example_docker\<lparr>active_view := Some (example_view\<lparr>preset_xml := brushdef_text\<rparr>)\<rparr>)
   = example_docker\<lparr>active_view := Some (example_view\<lparr>preset_xml := brushdef_text\<rparr>)\<rparr>
   \<and> (\<exists>pe \<in> set (iter brushdef_tree). suffix ''MaskGenerator'' (tag (snd pe)))"
proof -
  have "\<forall>vw tree c brushdef brushopt.
      active_view (example_docker\<lparr>active_view := Some (example_view\<lparr>preset_xml := brushdef_text\<rparr>)\<rparr>)
        = Some vw
      \<and> ET_fromstring example_lib (preset_xml vw) = Some tree
      \<and> c \<in> set (children tree) \<and> tag c = ''param''
      \<longrightarrow> \<not> usable example_lib c brushdef brushopt"
    by (auto simp: example_parse brushdef_tree_def)
  with set_brush_hardness_leaves_preset[of
      "example_docker\<lparr>active_view := Some (example_view\<lparr>preset_xml := brushdef_text\<rparr>)\<rparr>"
      example_lib "Finite 2"] example_usable
  show ?thesis by blast
qed

text \<open>
  C1, as stated, asks only that the preset contain a usable \<^verbatim>\<open>brush_definition\<close>
  parameter. This fails when an earlier \<^verbatim>\<open>brush_definition\<close> parameter has a text that is
  not XML: \<^verbatim>\<open>ET.fromstring\<close> raises inside both loops, \<^verbatim>\<open>_set_brush_hardness\<close> catches the
  exception and changes nothing, and \<^verbatim>\<open>_get_brush_hardness\<close> catches it and returns
  \<^verbatim>\<open>None\<close>.
\<close>

theorem hardness_roundtrip_broken_counterexample:
  "active_view broken_docker = Some (example_view\<lparr>preset_xml := broken_preset_text\<rparr>)
   \<and> ET_fromstring example_lib broken_preset_text = Some broken_preset_tree
   \<and> children broken_preset_tree =
       [Element ''param'' [(''name'', ''brush_definition''), (''type'', ''string'')]
          (Some ''oops'') [],
        Element ''param'' [(''name'', ''brush_definition''), (''type'', ''string'')]
          (Some brushdef_text) []]
   \<and> usable example_lib
        (Element ''param'' [(''name'', ''brush_definition''), (''type'', ''string'')]
          (Some brushdef_text) [])
        brushdef_tree
        ([0], Element ''MaskGenerator'' [(''hfade'', ''0.3''), (''vfade'', ''0.3'')] None [])
   \<and> set_brush_hardness example_lib (Finite (1 / 2)) broken_docker = broken_docker
   \<and> get_brush_hardness example_lib
        (set_brush_hardness example_lib (Finite (1 / 2)) broken_docker) = None
   \<and> py_max (Finite 0) (py_min (Finite 1) (Finite (1 / 2))) = Finite (1 / 2)"
proof -
  have s: "set_brush_hardness example_lib (Finite (1 / 2)) broken_docker = broken_docker"
    by (simp add: set_brush_hardness_def set_hardness_try_def broken_docker_def example_view_def
        example_parse findall_def child_items_def broken_preset_tree_def has_tag_def
        enumerate_eq_zip set_hardness_step_def get_attr_def)
  have g: "get_brush_hardness example_lib broken_docker = None"
    by (simp add: get_brush_hardness_def get_hardness_try_def broken_docker_def example_view_def
        example_parse findall_def child_items_def broken_preset_tree_def has_tag_def
        enumerate_eq_zip get_hardness_step_def get_attr_def)
  show ?thesis
    using example_usable
    by (simp only: s g example_parse example_clamps)
       (simp add: broken_docker_def broken_preset_tree_def)
qed

section \<open>Dragging the slider\<close>

lemma bit_length_one: "bit_length (Suc 0) = Suc 0"
  by (simp add: bit_length.simps[of "Suc 0"] bit_length.simps[of 0])

lemma bit_length_bounds: "0 < n \<Longrightarrow> 2 ^ (bit_length n - 1) \<le> n \<and> n < 2 ^ bit_length n"
proof (induction n rule: bit_length.induct)
  case (1 n)
  show ?case
  proof (cases "n div 2 = 0")
    case True
    with 1(2) have "n = Suc 0" by (simp add: div_eq_0_iff) 
    then show ?thesis by (simp add: bit_length_one)
  next
    case False
    with 1 have ih: "2 ^ (bit_length (n div 2) - 1) \<le> n div 2" "n div 2 < 2 ^ bit_length (n div 2)"
      by simp_all
    from False have pos: "0 < bit_length (n div 2)"
      by (simp add: bit_length.simps[of "n div 2"])
    have bl: "bit_length n = Suc (bit_length (n div 2))"
      using 1(2) by (simp add: bit_length.simps[of n])
    from pos obtain k where k: "bit_length (n div 2) = Suc k" by (cases "bit_length (n div 2)") auto
    from ih(1) k have "2 * 2 ^ k \<le> 2 * (n div 2)" by simp
    also have "\<dots> \<le> n" by simp
    finally have lo: "2 ^ (bit_length n - 1) \<le> n" using bl k by simp
    from ih(2) have "n div 2 + 1 \<le> 2 ^ bit_length (n div 2)" by simp
    then have "2 * (n div 2) + 2 \<le> 2 * 2 ^ bit_length (n div 2)" by simp
    moreover have "n < 2 * (n div 2) + 2" by presburger
    ultimately have "n < 2 ^ bit_length n" using bl by simp
    with lo show ?thesis by simp
  qed
qed

lemma pow2_pos: "0 < pow2 e"
  by (simp add: pow2_def)

lemma pow2_nat: "pow2 (int k) = 2 ^ k"
  by (simp add: pow2_def)

lemma pow2_neg_nat: "pow2 (- int k) = 1 / 2 ^ k"
proof (cases k)
  case 0
  then show ?thesis by (simp add: pow2_def)
next
  case (Suc n)
  have "\<not> 0 \<le> - int (Suc n)" by simp
  then have "pow2 (- int (Suc n)) = 1 / 2 ^ nat (int (Suc n))"
    by (simp only: pow2_def if_False minus_minus)
  with Suc show ?thesis by (simp only: nat_int)
qed

lemma pow2_add: "pow2 (a + b) = pow2 a * pow2 b"
proof -
  have "pow2 e = 2 powi e" for e
  proof (cases "0 \<le> e")
    case True
    then show ?thesis by (simp add: pow2_def power_int_def)
  next
    case False
    have "inverse (2::rat) ^ nat (- e) = 1 / 2 ^ nat (- e)"
      by (simp only: inverse_eq_divide power_one_over)
    with False show ?thesis by (simp only: pow2_def power_int_def if_False)
  qed
  then show ?thesis by (simp add: power_int_add)
qed

lemma pow2_mono: "a \<le> b \<Longrightarrow> pow2 a \<le> pow2 b"
proof -
  assume "a \<le> b"
  then have "b = a + int (nat (b - a))" by simp
  then obtain k where "b = a + int k" ..
  then have "pow2 b = pow2 a * 2 ^ k" by (simp add: pow2_add pow2_nat)
  moreover have "(1::rat) \<le> 2 ^ k" by simp
  ultimately show ?thesis using pow2_pos[of a] by (simp add: mult_le_cancel_left1)
qed

lemma pow2_less_imp: "pow2 a < pow2 b \<Longrightarrow> a < b"
  using pow2_mono[of b a] by (cases "a < b") auto

lemma floor_nat_bounds:
  fixes x :: rat
  assumes "1 \<le> x"
  shows "0 < nat \<lfloor>x\<rfloor>" "of_nat (nat \<lfloor>x\<rfloor>) \<le> x" "x < of_nat (nat \<lfloor>x\<rfloor>) + 1"
proof -
  from assms have f: "1 \<le> \<lfloor>x\<rfloor>" by (simp add: le_floor_iff)
  then show "0 < nat \<lfloor>x\<rfloor>" by simp
  from f have "(of_nat (nat \<lfloor>x\<rfloor>) :: rat) = of_int \<lfloor>x\<rfloor>" by simp
  moreover have "of_int \<lfloor>x\<rfloor> \<le> x" "x < of_int \<lfloor>x\<rfloor> + 1"
    using floor_correct[of x] by simp_all
  ultimately show "of_nat (nat \<lfloor>x\<rfloor>) \<le> x" "x < of_nat (nat \<lfloor>x\<rfloor>) + 1"
    by (simp_all only:)
qed

lemma ceiling_nat_bounds:
  fixes y :: rat
  assumes "1 < y"
  shows "0 < nat (\<lceil>y\<rceil> - 1)" "of_nat (nat (\<lceil>y\<rceil> - 1)) < y" "y \<le> of_nat (nat (\<lceil>y\<rceil> - 1)) + 1"
proof -
  from assms have c: "2 \<le> \<lceil>y\<rceil>" by (simp add: le_ceiling_iff)
  then show "0 < nat (\<lceil>y\<rceil> - 1)" by simp
  from c have e: "(of_nat (nat (\<lceil>y\<rceil> - 1)) :: rat) = of_int \<lceil>y\<rceil> - 1" by simp
  have "of_int \<lceil>y\<rceil> - 1 < y" using ceiling_correct[of y] by simp
  then show "of_nat (nat (\<lceil>y\<rceil> - 1)) < y" by (simp only: e)
  have "y \<le> of_int \<lceil>y\<rceil>" by (rule le_of_int_ceiling)
  then show "y \<le> of_nat (nat (\<lceil>y\<rceil> - 1)) + 1" by (simp only: e diff_add_cancel)
qed

lemma bit_length_Suc:
  assumes "0 < n"
  obtains k where "bit_length n = Suc k" "(2::rat) ^ k \<le> of_nat n" "(of_nat n :: rat) + 1 \<le> 2 ^ Suc k"
proof -
  from assms have "bit_length n \<noteq> 0" by (simp add: bit_length.simps[of n])
  then obtain k where k: "bit_length n = Suc k" by (cases "bit_length n") auto
  from bit_length_bounds[OF assms] k have b: "2 ^ k \<le> n" "n + 1 \<le> 2 ^ Suc k" by simp_all
  from b(1) have "(of_nat (2 ^ k) :: rat) \<le> of_nat n" by (subst of_nat_le_iff)
  then have 1: "(2::rat) ^ k \<le> of_nat n" by simp
  from b(2) have "(of_nat (n + 1) :: rat) \<le> of_nat (2 ^ Suc k)" by (subst of_nat_le_iff)
  then have 2: "(of_nat n :: rat) + 1 \<le> 2 ^ Suc k" by simp
  from k 1 2 show ?thesis by (rule that)
qed

lemma ilog2_bounds:
  assumes "0 < x"
  shows "pow2 (ilog2 x) \<le> x \<and> x < pow2 (ilog2 x + 1)"
proof (cases "1 \<le> x")
  case True
  note n = floor_nat_bounds[OF True]
  from bit_length_Suc[OF n(1)] obtain k where k: "bit_length (nat \<lfloor>x\<rfloor>) = Suc k"
    "(2::rat) ^ k \<le> of_nat (nat \<lfloor>x\<rfloor>)" "(of_nat (nat \<lfloor>x\<rfloor>) :: rat) + 1 \<le> 2 ^ Suc k" by blast
  have e: "ilog2 x = int k" using True k(1) by (simp add: ilog2_def)
  from k(2) n(2) have "2 ^ k \<le> x" by (rule order_trans)
  then have lo: "pow2 (int k) \<le> x" by (simp only: pow2_nat)
  from n(3) k(3) have "x < 2 ^ Suc k" by (rule less_le_trans)
  then have "x < pow2 (int (Suc k))" by (simp only: pow2_nat)
  moreover have "int (Suc k) = int k + 1" by simp
  ultimately have "x < pow2 (int k + 1)" by (simp only:)
  with lo e show ?thesis by (simp only: simp_thms)
next
  case False
  define y where "y = 1 / x"
  from False assms have y: "1 < y" "x = 1 / y" "0 < y" by (simp_all add: y_def)
  note m = ceiling_nat_bounds[OF y(1)]
  from bit_length_Suc[OF m(1)] obtain k where k: "bit_length (nat (\<lceil>y\<rceil> - 1)) = Suc k"
    "(2::rat) ^ k \<le> of_nat (nat (\<lceil>y\<rceil> - 1))"
    "(of_nat (nat (\<lceil>y\<rceil> - 1)) :: rat) + 1 \<le> 2 ^ Suc k" by blast
  have e: "ilog2 x = - int (Suc k)" using False k(1) by (simp add: ilog2_def y_def)
  from k(2) m(2) have a: "2 ^ k < y" by (rule le_less_trans)
  from m(3) k(3) have b: "y \<le> 2 ^ Suc k" by (rule order_trans)
  have p: "(0::rat) < 2 ^ Suc k" "(0::rat) < 2 ^ k" by simp_all
  from b y(3) p(1) have "1 / 2 ^ Suc k \<le> 1 / y" by (intro divide_left_mono) simp_all
  then have lo: "pow2 (- int (Suc k)) \<le> x" by (simp only: pow2_neg_nat y(2))
  have "0 < y * 2 ^ k" using y(3) by simp
  with a have "1 / y < 1 / 2 ^ k" by (intro divide_strict_left_mono) simp_all
  then have hi: "x < pow2 (- int k)" by (simp only: pow2_neg_nat y(2))
  have "- int (Suc k) + 1 = - int k" by simp
  with hi have "x < pow2 (- int (Suc k) + 1)" by (simp only:)
  with lo e show ?thesis by (simp only: simp_thms)
qed

lemma rhe_cases: "round_half_even y = \<lfloor>y\<rfloor> \<or> round_half_even y = \<lfloor>y\<rfloor> + 1"
  by (simp add: round_half_even_def Let_def)

lemma rhe_of_int [simp]: "round_half_even (of_int k) = k"
  by (simp add: round_half_even_def Let_def)

lemma rhe_ge: "of_int N \<le> y \<Longrightarrow> N \<le> round_half_even y"
proof -
  assume "of_int N \<le> y"
  then have "N \<le> \<lfloor>y\<rfloor>" by (simp add: le_floor_iff)
  with rhe_cases[of y] show ?thesis by auto
qed

lemma rhe_le: "y \<le> of_int N \<Longrightarrow> round_half_even y \<le> N"
proof (cases "y = of_int N")
  case True
  then show ?thesis by simp
next
  case False
  assume "y \<le> of_int N"
  with False have "y < of_int N" by simp
  then have "\<lfloor>y\<rfloor> < N" by (simp add: floor_less_iff)
  with rhe_cases[of y] show ?thesis by auto
qed

lemma rhe_near: "\<bar>of_int (round_half_even y) - y\<bar> \<le> 1 / 2"
proof -
  define d where "d = y - of_int \<lfloor>y\<rfloor>"
  have d: "0 \<le> d" "d < 1" using floor_correct[of y] by (simp_all add: d_def)
  have y: "y = of_int \<lfloor>y\<rfloor> + d" by (simp add: d_def)
  consider "d < 1 / 2" | "1 / 2 < d" | "d = 1 / 2" by linarith
  then show ?thesis
  proof cases
    case 1
    then have "round_half_even y = \<lfloor>y\<rfloor>" by (simp add: round_half_even_def Let_def d_def)
    then have "of_int (round_half_even y) - y = - d" by (simp add: d_def)
    with 1 d show ?thesis by simp
  next
    case 2
    then have "round_half_even y = \<lfloor>y\<rfloor> + 1" by (simp add: round_half_even_def Let_def d_def)
    then have "of_int (round_half_even y) - y = 1 - d" by (simp add: d_def)
    with 2 d show ?thesis by simp
  next
    case 3
    then have "round_half_even y = \<lfloor>y\<rfloor> \<or> round_half_even y = \<lfloor>y\<rfloor> + 1"
      by (rule_tac rhe_cases)
    then have "of_int (round_half_even y) - y = - d \<or> of_int (round_half_even y) - y = 1 - d"
      by (auto simp: d_def)
    with 3 show ?thesis by auto
  qed
qed

lemma round_double_bounds:
  assumes A: "0 \<le> A" "of_int A \<le> x" and B: "x \<le> of_int B" "B \<le> 2 ^ 52"
  shows "\<exists>r. round_double x = Finite r \<and> of_int A \<le> r \<and> r \<le> of_int B"
proof (cases "x = 0")
  case True
  with A B show ?thesis by (simp add: round_double_def)
next
  case False
  from A(1) have "(0::rat) \<le> of_int A" by simp
  from this A(2) have "0 \<le> x" by (rule order_trans)
  with False have x: "0 < x" by simp
  define e where "e = max (ilog2 x) (- 1022)"
  have B52: "(of_int B :: rat) \<le> pow2 52"
  proof -
    from B(2) have "(of_int B :: rat) \<le> of_int (2 ^ 52)" by (subst of_int_le_iff)
    then show ?thesis by (simp add: pow2_def)
  qed
  have "ilog2 x \<le> 52"
  proof (rule ccontr)
    assume "\<not> ilog2 x \<le> 52"
    then have "53 \<le> ilog2 x" by simp
    from pow2_mono[OF this] ilog2_bounds[OF x] have "pow2 53 \<le> x" by simp
    with B(1) B52 have "pow2 53 \<le> pow2 52" by simp
    then show False by (simp add: pow2_def)
  qed
  then have e52: "e \<le> 52" by (simp add: e_def)
  define n where "n = nat (52 - e)"
  from e52 have en: "e - 52 = - int n" by (simp add: n_def)
  have ulp: "pow2 (e - 52) = 1 / 2 ^ n" by (simp only: en pow2_neg_nat)
  define m where "m = round_half_even (x * 2 ^ n)"
  have "of_int (A * 2 ^ n) \<le> x * 2 ^ n" using A(2) by simp
  from rhe_ge[OF this] have mA: "A * 2 ^ n \<le> m" by (simp add: m_def)
  have "x * 2 ^ n \<le> of_int (B * 2 ^ n)" using B(1) by simp
  from rhe_le[OF this] have mB: "m \<le> B * 2 ^ n" by (simp add: m_def)
  define r where "r = of_int m / (2 ^ n :: rat)"
  from mA have "(of_int (A * 2 ^ n) :: rat) \<le> of_int m" by (subst of_int_le_iff)
  then have rA: "of_int A \<le> r" by (simp add: r_def field_simps)
  from mB have "(of_int m :: rat) \<le> of_int (B * 2 ^ n)" by (subst of_int_le_iff)
  then have rB: "r \<le> of_int B" by (simp add: r_def field_simps)
  have "pow2 52 < pow2 1024" by (simp add: pow2_def)
  with rB B52 have fin: "\<not> pow2 1024 \<le> r" by simp
  have "round_double x = Finite r"
    using x False fin
    by (simp add: round_double_def Let_def e_def[symmetric] ulp m_def[symmetric] r_def)
  with rA rB show ?thesis by blast
qed

lemma round_double_int:
  assumes "0 \<le> n" "n \<le> 2 ^ 52"
  shows "round_double (of_int n) = Finite (of_int n)"
  using round_double_bounds[of n "of_int n" n] assms by auto

lemma round_double_minus: "round_double (- x) = fneg (round_double x)"
  by (cases "x = 0"; cases "0 < x") (auto simp: round_double_def Let_def fneg_def)

lemma round_double_not_NaN: "round_double x \<noteq> NaN"
  by (simp add: round_double_def Let_def)

lemma flt_not_NaN: "flt a b \<Longrightarrow> a \<noteq> NaN \<and> b \<noteq> NaN"
  by (cases a; cases b) simp_all

lemma flt_total: "a \<noteq> NaN \<Longrightarrow> b \<noteq> NaN \<Longrightarrow> \<not> flt a b \<Longrightarrow> fle b a"
  by (cases a; cases b) (auto simp: fle_def feq_def)

lemma fle_refl: "a \<noteq> NaN \<Longrightarrow> fle a a"
  by (simp add: fle_def feq_def)

lemma flt_fle: "flt a b \<Longrightarrow> fle a b"
  by (simp add: fle_def)

lemma qt_bound_range:
  assumes "flt (minimum s) (maximum s)" "v \<noteq> NaN"
  shows "fle (minimum s) (qt_bound s v) \<and> fle (qt_bound s v) (maximum s)"
proof -
  note n = flt_not_NaN[OF assms(1)]
  show ?thesis
  proof (cases "flt v (minimum s)")
    case True
    with n assms(1) show ?thesis by (simp add: qt_bound_def fle_refl flt_fle)
  next
    case False
    note a = this
    show ?thesis
    proof (cases "flt (maximum s) v")
      case True
      with a n assms(1) show ?thesis by (simp add: qt_bound_def fle_refl flt_fle)
    next
      case False
      with a n assms(2) show ?thesis by (simp add: qt_bound_def flt_total)
    qed
  qed
qed

lemma int_truediv_Finite:
  assumes "int_truediv a b = Inr q"
  shows "\<exists>r. q = Finite r"
proof (cases "round_double (of_int a / of_int b)")
  case (Finite r)
  with assms have "q = Finite r" by (simp add: int_truediv_def split: if_splits)
  then show ?thesis ..
next
  case PosInf
  with assms show ?thesis by (simp add: int_truediv_def split: if_splits)
next
  case NegInf
  with assms show ?thesis by (simp add: int_truediv_def split: if_splits)
next
  case NaN
  with assms show ?thesis by (simp add: int_truediv_def split: if_splits)
qed

lemma int_to_float_Finite:
  assumes "int_to_float n = Inr q"
  shows "\<exists>r. q = Finite r"
proof (cases "round_double (of_int n)")
  case (Finite r)
  with assms have "q = Finite r" by (simp add: int_to_float_def)
  then show ?thesis ..
next
  case PosInf
  with assms show ?thesis by (simp add: int_to_float_def)
next
  case NegInf
  with assms show ?thesis by (simp add: int_to_float_def)
next
  case NaN
  with assms show ?thesis by (simp add: int_to_float_def)
qed

lemma clamp01: "fle (Finite 0) (py_max (Finite 0) (py_min (Finite 1) (Finite r)))
    \<and> fle (py_max (Finite 0) (py_min (Finite 1) (Finite r))) (Finite 1)"
  by (auto simp: py_max_def py_min_def fle_def feq_def)

lemma mouse_ratio_range:
  "mouse_ratio s x = Inr ratio \<Longrightarrow> fle (Finite 0) ratio \<and> fle ratio (Finite 1)"
proof -
  assume a: "mouse_ratio s x = Inr ratio"
  then obtain q where q: "int_truediv x (rect_width s) = Inr q"
    "ratio = py_max (Finite 0) (py_min (Finite 1) q)"
    by (auto simp: mouse_ratio_def split: sum.splits)
  from int_truediv_Finite[OF q(1)] obtain r where "q = Finite r" ..
  with q(2) clamp01[of r] show ?thesis by simp
qed

lemma fmul_Finite_not_NaN: "fmul (Finite a) (Finite b) \<noteq> NaN"
  by (simp add: fmul_def round_double_not_NaN)

lemma mouse_value_cases:
  assumes "mouse_value s x = Inr nv"
  obtains ratio dq steps fsteps where
    "mouse_ratio s x = Inr ratio"
    "fdiv (fadd (minimum s) (fmul ratio (fsub (maximum s) (minimum s)))) (singleStep s) = Inr dq"
    "py_round dq = Inr steps" "int_to_float steps = Inr fsteps"
    "nv = fmul fsteps (singleStep s)"
  using assms by (auto simp: mouse_value_def Let_def split: sum.splits)

lemma py_round_Finite: "py_round dq = Inr steps \<Longrightarrow> \<exists>d. dq = Finite d \<and> steps = round_half_even d"
  by (cases dq) auto



lemma int_truediv_Inl: "int_truediv a b = Inl e \<Longrightarrow> b \<noteq> 0 \<Longrightarrow> e = OverflowError"
  by (cases "round_double (of_int a / of_int b)") (simp_all add: int_truediv_def)

lemma int_to_float_Inl: "int_to_float n = Inl e \<Longrightarrow> e = OverflowError"
  by (cases "round_double (of_int n)") (simp_all add: int_to_float_def)

lemma py_round_Inl: "py_round d = Inl e \<Longrightarrow> e = ValueError \<or> e = OverflowError"
  by (cases d) auto

lemma mouse_value_Inl:
  assumes r: "mouse_value s x = Inl e" and w: "0 < rect_width s"
    and st: "singleStep s \<noteq> Finite 0"
  shows "e = ValueError \<or> e = OverflowError"
proof (cases "mouse_ratio s x")
  case (Inl e')
  with r have "e' = e" by (simp add: mouse_value_def)
  with Inl w show ?thesis
    by (auto simp: mouse_ratio_def split: sum.splits dest: int_truediv_Inl)
next
  case (Inr ratio)
  define nv where "nv = fadd (minimum s) (fmul ratio (fsub (maximum s) (minimum s)))"
  from st obtain dq where dq: "fdiv nv (singleStep s) = Inr dq" by (simp add: fdiv_def)
  show ?thesis
  proof (cases "py_round dq")
    case (Inl e')
    with r Inr dq have "e' = e" by (simp add: mouse_value_def Let_def nv_def)
    with Inl show ?thesis by (auto dest: py_round_Inl)
  next
    case (Inr steps)
    note steps = this
    show ?thesis
    proof (cases "int_to_float steps")
      case (Inl e')
      with r \<open>mouse_ratio s x = Inr ratio\<close> dq steps have "e' = e"
        by (simp add: mouse_value_def Let_def nv_def)
      with Inl show ?thesis by (auto dest: int_to_float_Inl)
    next
      case (Inr fsteps)
      with r \<open>mouse_ratio s x = Inr ratio\<close> dq steps show ?thesis
        by (simp add: mouse_value_def Let_def nv_def)
    qed
  qed
qed

lemma updateValueFromMouse_outcomes:
  assumes rng: "flt (minimum s) (maximum s)"
    and w: "0 < rect_width s"
    and st: "singleStep s = Finite st" "0 < st"
    and Q: "\<forall>v. v \<noteq> NaN \<longrightarrow> Q v \<noteq> NaN"
  shows "(\<exists>e. updateValueFromMouse Q s x = Inl e \<and> (e = ValueError \<or> e = OverflowError))
    \<or> (\<exists>ratio d steps fsteps.
        mouse_ratio s x = Inr ratio \<and> fle (Finite 0) ratio \<and> fle ratio (Finite 1)
      \<and> fdiv (fadd (minimum s) (fmul ratio (fsub (maximum s) (minimum s)))) (Finite st)
          = Inr (Finite d)
      \<and> steps = round_half_even d \<and> \<bar>of_int steps - d\<bar> \<le> 1 / 2
      \<and> int_to_float steps = Inr fsteps
      \<and> updateValueFromMouse Q s x
          = Inr (s\<lparr>held := qt_bound s (Q (fmul fsteps (Finite st)))\<rparr>)
      \<and> fle (minimum s) (qt_bound s (Q (fmul fsteps (Finite st))))
      \<and> fle (qt_bound s (Q (fmul fsteps (Finite st)))) (maximum s))"
proof (cases "mouse_value s x")
  case (Inl e)
  from st have "singleStep s \<noteq> Finite 0" by simp
  from mouse_value_Inl[OF Inl w this] Inl show ?thesis
    by (simp add: updateValueFromMouse_def)
next
  case (Inr nv)
  from mouse_value_cases[OF Inr] obtain ratio dq steps fsteps where c:
    "mouse_ratio s x = Inr ratio"
    "fdiv (fadd (minimum s) (fmul ratio (fsub (maximum s) (minimum s)))) (singleStep s) = Inr dq"
    "py_round dq = Inr steps" "int_to_float steps = Inr fsteps"
    "nv = fmul fsteps (singleStep s)" by blast
  from py_round_Finite[OF c(3)] obtain d where d: "dq = Finite d" "steps = round_half_even d"
    by blast
  from int_to_float_Finite[OF c(4)] obtain f where f: "fsteps = Finite f" ..
  have "nv \<noteq> NaN" using c(5) f st(1) by (simp add: fmul_Finite_not_NaN)
  with Q have "Q nv \<noteq> NaN" by simp
  from qt_bound_range[OF rng this]
  have b: "fle (minimum s) (qt_bound s (Q (fmul fsteps (Finite st))))
      \<and> fle (qt_bound s (Q (fmul fsteps (Finite st)))) (maximum s)"
    using c(5) st(1) by simp
  have u: "updateValueFromMouse Q s x
      = Inr (s\<lparr>held := qt_bound s (Q (fmul fsteps (Finite st)))\<rparr>)"
    using Inr c(5) st(1) by (simp add: updateValueFromMouse_def qt_setValue_def)
  have n: "\<bar>of_int steps - d\<bar> \<le> 1 / 2" unfolding d(2) by (rule rhe_near)
  from c(1) mouse_ratio_range[OF c(1)] c(2)[unfolded st(1) d(1)] d(2) n c(4) u b
  show ?thesis by blast
qed

lemma round_double_error:
  fixes k :: nat
  assumes x: "0 \<le> x" "x \<le> 2 ^ k" and k: "k \<le> 52"
  shows "\<exists>r. round_double x = Finite r \<and> \<bar>r - x\<bar> \<le> 2 ^ k / 2 ^ 53"
proof (cases "x = 0")
  case True
  then show ?thesis by (simp add: round_double_def)
next
  case False
  with x(1) have pos: "0 < x" by simp
  define e where "e = max (ilog2 x) (- 1022)"
  have "ilog2 x \<le> int k"
  proof (rule ccontr)
    assume "\<not> ilog2 x \<le> int k"
    then have "int k + 1 \<le> ilog2 x" by simp
    from pow2_mono[OF this] ilog2_bounds[OF pos] have "pow2 (int k + 1) \<le> x" by simp
    with x(2) have "pow2 (int k + 1) \<le> pow2 (int k)" by (simp add: pow2_nat)
    then have "pow2 (int k) * 2 \<le> pow2 (int k)" by (simp add: pow2_add pow2_def)
    with pow2_pos[of "int k"] show False by simp
  qed
  then have ek: "e \<le> int k" by (simp add: e_def)
  with k have e52: "e \<le> 52" by simp
  define n where "n = nat (52 - e)"
  from e52 have en: "e - 52 = - int n" by (simp add: n_def)
  have ulp: "pow2 (e - 52) = 1 / 2 ^ n" by (simp only: en pow2_neg_nat)
  define m where "m = round_half_even (x * 2 ^ n)"
  define r where "r = of_int m / (2 ^ n :: rat)"
  have nk: "52 \<le> n + k" using ek by (simp add: n_def)
  have "r - x = (of_int m - x * 2 ^ n) / 2 ^ n" by (simp add: r_def field_simps)
  then have "\<bar>r - x\<bar> = \<bar>of_int m - x * 2 ^ n\<bar> / 2 ^ n" by (simp add: abs_divide)
  also have "\<dots> \<le> (1 / 2) / 2 ^ n"
    using rhe_near[of "x * 2 ^ n"] by (intro divide_right_mono) (simp_all add: m_def)
  also have "\<dots> \<le> 2 ^ k / 2 ^ 53"
  proof -
    from nk have "(2::rat) ^ 52 \<le> 2 ^ (n + k)" by (intro power_increasing) simp_all
    then have "(2::rat) ^ 53 \<le> 2 * (2 ^ n * 2 ^ k)" by (simp add: power_add mult_ac)
    then show ?thesis by (simp add: field_simps)
  qed
  finally have err: "\<bar>r - x\<bar> \<le> 2 ^ k / 2 ^ 53" .
  have "(2::rat) ^ k \<le> 2 ^ 52" using k by (intro power_increasing) simp_all
  then have "(2::rat) ^ k / 2 ^ 53 \<le> 1" by simp
  with err have "r \<le> x + 1" by linarith
  also have "\<dots> \<le> 2 ^ 52 + 1" using x(2) \<open>(2::rat) ^ k \<le> 2 ^ 52\<close> by simp
  also have "\<dots> < pow2 1024" by (simp add: pow2_def)
  finally have fin: "\<not> pow2 1024 \<le> r" by simp
  have "round_double x = Finite r"
    using pos False fin
    by (simp add: round_double_def Let_def e_def[symmetric] ulp m_def[symmetric] r_def)
  with err show ?thesis by blast
qed

lemma round_double_near:
  assumes "0 \<le> A" "of_int A \<le> x" "x \<le> of_int B" "B \<le> 2 ^ 31"
  obtains r where "round_double x = Finite r" "of_int A \<le> r" "r \<le> of_int B"
    "\<bar>r - x\<bar> \<le> 1 / 2 ^ 22"
proof -
  from assms(4) have B52: "B \<le> 2 ^ 52" by simp
  from round_double_bounds[OF assms(1-3) B52] obtain r where r:
    "round_double x = Finite r" "of_int A \<le> r" "r \<le> of_int B" by blast
  from assms(1) have "(0::rat) \<le> of_int A" by simp
  from this assms(2) have x0: "0 \<le> x" by (rule order_trans)
  from assms(4) have "(of_int B :: rat) \<le> of_int (2 ^ 31)" by (subst of_int_le_iff)
  with assms(3) have x1: "x \<le> 2 ^ 31" by simp
  from round_double_error[OF x0 x1] r(1) have "\<bar>r - x\<bar> \<le> 2 ^ 31 / 2 ^ 53" by auto
  then have "\<bar>r - x\<bar> \<le> 1 / 2 ^ 22" by simp
  with r show ?thesis by (rule that)
qed

lemma int_truediv_ratio:
  assumes w: "0 < w" and x: "\<bar>x\<bar> \<le> 2 ^ 31"
  shows "\<exists>q. int_truediv x w = Inr (Finite q)
     \<and> \<bar>max 0 (min 1 q) - max 0 (min 1 (of_int x / of_int w))\<bar> \<le> 1 / 2 ^ 53"
proof -
  from w have w1: "(1::rat) \<le> of_int w" by simp
  from w have w0: "(0::rat) < of_int w" by simp
  consider "x < 0" | "0 \<le> x" "x \<le> w" | "w < x" by linarith
  then show ?thesis
  proof cases
    case 1
    have "(0::rat) \<le> of_int (- x)" using 1 by simp
    from divide_nonneg_pos[OF this w0]
    have q0: "(of_int 0 :: rat) \<le> of_int (- x) / of_int w" by simp
    have "of_int (- x) / of_int w \<le> of_int (- x) / (1::rat)"
      using 1 w1 by (intro divide_left_mono) simp_all
    also have "\<dots> \<le> of_int (2 ^ 31)" using x 1 by (simp only: div_by_1 of_int_le_iff)
    finally have q1: "of_int (- x) / of_int w \<le> (of_int (2 ^ 31) :: rat)" .
    from round_double_bounds[OF _ q0 q1] obtain r where r:
      "round_double (of_int (- x) / of_int w) = Finite r" "0 \<le> r" by auto
    have "of_int x / of_int w = - (of_int (- x) / of_int w :: rat)" by simp
    then have "round_double (of_int x / of_int w) = Finite (- r)"
      using r(1) by (simp only: round_double_minus) (simp add: fneg_def)
    then have "int_truediv x w = Inr (Finite (- r))" using w by (simp add: int_truediv_def)
    moreover have "of_int x / of_int w < (0::rat)" using 1 w0 by (simp add: divide_neg_pos)
    ultimately show ?thesis using r(2) by (auto simp: max_def min_def)
  next
    case 2
    have q0: "(0::rat) \<le> of_int x / of_int w" using 2(1) w by simp
    have "(of_int x :: rat) \<le> of_int w" using 2(2) by (subst of_int_le_iff)
    then have q1: "of_int x / of_int w \<le> (1::rat)" using w0 by (simp add: divide_le_eq)
    have q0': "(of_int 0 :: rat) \<le> of_int x / of_int w" using q0 by simp
    have q1': "of_int x / of_int w \<le> (of_int 1 :: rat)" using q1 by simp
    from round_double_bounds[OF _ q0' q1'] obtain r where r:
      "round_double (of_int x / of_int w) = Finite r" "0 \<le> r" "r \<le> 1" by auto
    have q1'': "of_int x / of_int w \<le> (2::rat) ^ 0" using q1 by simp
    from round_double_error[OF q0 q1''] r(1)
    have "\<bar>r - of_int x / of_int w\<bar> \<le> 1 / 2 ^ 53" by auto
    moreover have "int_truediv x w = Inr (Finite r)" using r(1) w by (simp add: int_truediv_def)
    ultimately show ?thesis using r(2,3) q0 q1 by (auto simp: max_def min_def)
  next
    case 3
    have "(of_int w :: rat) \<le> of_int x" using 3 by (subst of_int_le_iff) simp
    then have q0: "(of_int 1 :: rat) \<le> of_int x / of_int w" using w0 by (simp add: le_divide_eq)
    have "of_int x / of_int w \<le> of_int x / (1::rat)"
      using 3 w w1 by (intro divide_left_mono) simp_all
    also have "\<dots> \<le> of_int (2 ^ 31)" using x 3 w by (simp only: div_by_1 of_int_le_iff)
    finally have q1: "of_int x / of_int w \<le> (of_int (2 ^ 31) :: rat)" .
    from round_double_bounds[OF _ q0 q1] obtain r where r:
      "round_double (of_int x / of_int w) = Finite r" "1 \<le> r" by auto
    then have "int_truediv x w = Inr (Finite r)" using w by (simp add: int_truediv_def)
    moreover have "(1::rat) \<le> of_int x / of_int w" using q0 by simp
    ultimately show ?thesis using r(2) by (auto simp: max_def min_def)
  qed
qed

lemma clamp_Finite:
  "py_max (Finite 0) (py_min (Finite 1) (Finite q)) = Finite (max 0 (min 1 q))"
  by (auto simp: py_max_def py_min_def max_def min_def)


lemma updateValueFromMouse_whole_range:
  assumes mn: "minimum s = Finite (of_int lo)" and mx: "maximum s = Finite (of_int hi)"
    and lo: "0 \<le> lo" "lo < hi" and hi: "hi \<le> 2 ^ 31"
    and st: "singleStep s = Finite 1"
    and w: "0 < rect_width s" and x: "\<bar>x\<bar> \<le> 2 ^ 31"
    and Q: "\<forall>n. Q (Finite (of_int n)) = Finite (of_int n)"
  shows "\<exists>n. updateValueFromMouse Q s x = Inr (s\<lparr>held := Finite (of_int n)\<rparr>)
      \<and> lo \<le> n \<and> n \<le> hi
      \<and> \<bar>of_int n - (of_int lo
           + max 0 (min 1 (of_int x / of_int (rect_width s))) * of_int (hi - lo))\<bar>
          \<le> (1 / 2 + 1 / 2 ^ 20 :: rat)"
proof -
  define R :: rat where "R = of_int (hi - lo)"
  define \<rho> :: rat where "\<rho> = max 0 (min 1 (of_int x / of_int (rect_width s)))"
  have hi31: "hi - lo \<le> 2 ^ 31" "0 \<le> hi - lo" "0 \<le> hi" using hi lo by simp_all
  have hi52: "hi \<le> 2 ^ 52" "hi - lo \<le> 2 ^ 52" using hi lo by simp_all
  have R: "0 \<le> R" "R \<le> 2 ^ 31"
  proof -
    show "0 \<le> R" using hi31(2) by (simp add: R_def)
    from hi31(1) have "(of_int (hi - lo) :: rat) \<le> of_int (2 ^ 31)" by (subst of_int_le_iff)
    then show "R \<le> 2 ^ 31" by (simp add: R_def)
  qed
  from int_truediv_ratio[OF w x] obtain q where q:
    "int_truediv x (rect_width s) = Inr (Finite q)"
    "\<bar>max 0 (min 1 q) - \<rho>\<bar> \<le> 1 / 2 ^ 53" unfolding \<rho>_def by blast
  define \<rho>' where "\<rho>' = max 0 (min 1 q)"
  have ratio: "mouse_ratio s x = Inr (Finite \<rho>')"
    using q(1) by (simp add: mouse_ratio_def clamp_Finite \<rho>'_def)
  have \<rho>': "0 \<le> \<rho>'" "\<rho>' \<le> 1" by (simp_all add: \<rho>'_def)
  have range: "fsub (maximum s) (minimum s) = Finite R"
  proof -
    have "fsub (maximum s) (minimum s) = round_double (of_int (hi - lo))"
      by (simp add: fsub_def fadd_def fneg_def mn mx)
    then show ?thesis by (simp only: round_double_int[OF hi31(2) hi52(2)] R_def)
  qed
  have e1: "\<bar>\<rho>' * R - \<rho> * R\<bar> \<le> 1 / 2 ^ 22"
  proof -
    have "\<bar>\<rho>' * R - \<rho> * R\<bar> = \<bar>\<rho>' - \<rho>\<bar> * R"
      using R(1) by (simp add: left_diff_distrib[symmetric] abs_mult)
    also have "\<dots> \<le> (1 / 2 ^ 53) * 2 ^ 31"
      using q(2) R by (intro mult_mono) (simp_all add: \<rho>'_def)
    also have "\<dots> = 1 / 2 ^ 22" by simp
    finally show ?thesis .
  qed
  have t0: "(of_int 0 :: rat) \<le> \<rho>' * R" using \<rho>'(1) R(1) by simp
  have "\<rho>' * R \<le> R" by (rule mult_left_le_one_le[OF R(1) \<rho>'])
  then have t1: "\<rho>' * R \<le> (of_int (hi - lo) :: rat)" by (simp only: R_def)
  from round_double_near[OF _ t0 t1 hi31(1)] obtain t where t:
    "round_double (\<rho>' * R) = Finite t" "0 \<le> t" "t \<le> R" "\<bar>t - \<rho>' * R\<bar> \<le> 1 / 2 ^ 22"
    by (auto simp: R_def)
  have tm: "fmul (Finite \<rho>') (Finite R) = Finite t"
    using t(1) by (simp add: fmul_def)
  have v0: "(of_int lo :: rat) \<le> of_int lo + t" using t(2) by simp
  have v1: "of_int lo + t \<le> (of_int hi :: rat)" using t(3) by (simp add: R_def)
  from round_double_near[OF lo(1) v0 v1 hi] obtain v where v:
    "round_double (of_int lo + t) = Finite v" "of_int lo \<le> v" "v \<le> of_int hi"
    "\<bar>v - (of_int lo + t)\<bar> \<le> 1 / 2 ^ 22" by blast
  have va: "fadd (minimum s) (Finite t) = Finite v" using v(1) by (simp add: fadd_def mn)
  from round_double_near[OF lo(1) v(2,3) hi] obtain d where d:
    "round_double v = Finite d" "of_int lo \<le> d" "d \<le> of_int hi"
    "\<bar>d - v\<bar> \<le> 1 / 2 ^ 22" by blast
  have dv: "fdiv (Finite v) (singleStep s) = Inr (Finite d)"
    using d(1) by (simp add: fdiv_def st)
  define n where "n = round_half_even d"
  have n: "lo \<le> n" "n \<le> hi" using rhe_ge[OF d(2)] rhe_le[OF d(3)] by (simp_all add: n_def)
  have nd: "\<bar>of_int n - d\<bar> \<le> 1 / 2" unfolding n_def by (rule rhe_near)
  have n52: "0 \<le> n" "n \<le> 2 ^ 52" using n lo(1) hi52(1) by simp_all
  have fi: "int_to_float n = Inr (Finite (of_int n))"
    using round_double_int[OF n52] by (simp add: int_to_float_def)
  have fm: "fmul (Finite (of_int n)) (singleStep s) = Finite (of_int n)"
    using round_double_int[OF n52] by (simp add: fmul_def st)
  have mv: "mouse_value s x = Inr (Finite (of_int n))"
    using ratio range tm va dv fi fm
    by (simp add: mouse_value_def Let_def n_def[symmetric])
  have "qt_bound s (Finite (of_int n)) = Finite (of_int n)"
    using n by (simp add: qt_bound_def mn mx)
  with mv Q have u: "updateValueFromMouse Q s x = Inr (s\<lparr>held := Finite (of_int n)\<rparr>)"
    by (simp add: updateValueFromMouse_def qt_setValue_def)
  define c :: rat where "c = 1 / 2 ^ 22"
  note b = nd[unfolded abs_le_iff] d(4)[unfolded abs_le_iff c_def[symmetric]]
    v(4)[unfolded abs_le_iff c_def[symmetric]] t(4)[unfolded abs_le_iff c_def[symmetric]]
    e1[unfolded abs_le_iff c_def[symmetric]]
  have "of_int n - (of_int lo + \<rho> * R) \<le> 1 / 2 + 4 * c"
    "- (of_int n - (of_int lo + \<rho> * R)) \<le> 1 / 2 + 4 * c"
    using b by linarith+
  then have "\<bar>of_int n - (of_int lo + \<rho> * R)\<bar> \<le> 1 / 2 + 4 * c"
    by (simp only: abs_le_iff simp_thms)
  also have "1 / 2 + 4 * c = 1 / 2 + 1 / 2 ^ 20" by (simp add: c_def)
  finally have a: "\<bar>of_int n - (of_int lo + \<rho> * R)\<bar> \<le> 1 / 2 + 1 / 2 ^ 20" .
  from u n a show ?thesis unfolding \<rho>_def R_def by blast
qed

lemma int_near:
  assumes "\<bar>of_int n - (of_int m :: rat)\<bar> \<le> 1 / 2 + 1 / 2 ^ 20"
  shows "n = m"
proof -
  have "(1 / 2 + 1 / 2 ^ 20 :: rat) < 1" by simp
  with assms have "\<bar>of_int n - (of_int m :: rat)\<bar> < 1" by (rule le_less_trans)
  then have "\<bar>(of_int (n - m) :: rat)\<bar> < of_int 1" by simp
  then have "\<bar>n - m\<bar> < 1" by (simp only: of_int_abs[symmetric] of_int_less_iff)
  then show ?thesis by simp
qed

lemma coarse_slider_at_0:
  "mouse_ratio coarse_slider 0 = Inr (Finite 0)"
  "fadd (minimum coarse_slider)
     (fmul (Finite 0) (fsub (maximum coarse_slider) (minimum coarse_slider))) = Finite 1"
  "fdiv (Finite 1) (singleStep coarse_slider) = Inr (Finite (1 / 4))"
  "py_round (Finite (1 / 4)) = Inr 0"
  "mouse_value coarse_slider 0 = Inr (Finite 0)"
  "updateValueFromMouse (\<lambda>v. v) coarse_slider 0 = Inr (coarse_slider\<lparr>held := Finite 1\<rparr>)"
proof -
  show r: "mouse_ratio coarse_slider 0 = Inr (Finite 0)"
    by (simp add: mouse_ratio_def int_truediv_def coarse_slider_def round_double_def
        py_max_def py_min_def)
  have g: "fsub (maximum coarse_slider) (minimum coarse_slider) = Finite 9"
    by (simp add: coarse_slider_def fsub_def fadd_def fneg_def float_eval)
  show a: "fadd (minimum coarse_slider)
     (fmul (Finite 0) (fsub (maximum coarse_slider) (minimum coarse_slider))) = Finite 1"
    by (simp add: g) (simp add: coarse_slider_def fadd_def fmul_def float_eval)
  show d: "fdiv (Finite 1) (singleStep coarse_slider) = Inr (Finite (1 / 4))"
    by (simp add: coarse_slider_def fdiv_def float_eval)
  have "\<lfloor>1 / 4 :: rat\<rfloor> = 0" by (rule floor_unique) simp_all
  then have p': "round_half_even (1 / 4) = 0"
    by (simp add: round_half_even_def)
  then show p: "py_round (Finite (1 / 4)) = Inr 0" by simp
  have i: "int_to_float 0 = Inr (Finite 0)" by (simp add: int_to_float_def round_double_def)
  have m: "fmul (Finite 0) (singleStep coarse_slider) = Finite 0"
    by (simp add: coarse_slider_def fmul_def round_double_def)
  show v: "mouse_value coarse_slider 0 = Inr (Finite 0)"
    by (simp add: mouse_value_def r a d p' i m Let_def)
  show "updateValueFromMouse (\<lambda>v. v) coarse_slider 0
      = Inr (coarse_slider\<lparr>held := Finite 1\<rparr>)"
    by (simp add: updateValueFromMouse_def v qt_setValue_def qt_bound_def)
      (simp add: coarse_slider_def)
qed

text \<open>
  C6, as stated, says of every slider with a maximum above its minimum, a positive width
  and a positive step that the multiple of the step nearest to the interpolated value
  becomes the value of the slider. This fails for the slider ranging from 1 to 10 in steps
  of 4: at the left edge the interpolated value is 1, \<^verbatim>\<open>round(1 / 4)\<close> is 0 and the multiple
  handed to \<^verbatim>\<open>setValue\<close> is 0, which is below the minimum; the toolkit forces it into the
  range and the slider holds 1, which is no multiple of 4.
\<close>

theorem updateValueFromMouse_coarse_counterexample:
  "flt (minimum coarse_slider) (maximum coarse_slider)
   \<and> 0 < rect_width coarse_slider
   \<and> flt (Finite 0) (singleStep coarse_slider)
   \<and> mouse_ratio coarse_slider 0 = Inr (Finite 0)
   \<and> fadd (minimum coarse_slider)
        (fmul (Finite 0) (fsub (maximum coarse_slider) (minimum coarse_slider))) = Finite 1
   \<and> fdiv (Finite 1) (singleStep coarse_slider) = Inr (Finite (1 / 4))
   \<and> py_round (Finite (1 / 4)) = Inr 0
   \<and> mouse_value coarse_slider 0 = Inr (Finite 0)
   \<and> updateValueFromMouse (\<lambda>v. v) coarse_slider 0 = Inr (coarse_slider\<lparr>held := Finite 1\<rparr>)
   \<and> held (coarse_slider\<lparr>held := Finite 1\<rparr>) \<noteq> Finite 0"
  using coarse_slider_at_0 by (simp add: coarse_slider_def)

text \<open>
  The claim also fails for a slider without an upper limit: with the maximum at plus
  infinity the range is infinite, \<^verbatim>\<open>0.0 * inf\<close> is NaN at the left edge, and \<^verbatim>\<open>round\<close>
  raises \<^verbatim>\<open>ValueError\<close>: no value is set.
\<close>

lemma updateValueFromMouse_unbounded_raises:
  "updateValueFromMouse (\<lambda>v. v) (coarse_slider\<lparr>maximum := PosInf\<rparr>) 0 = Inl ValueError"
  by (simp add: updateValueFromMouse_def mouse_value_def mouse_ratio_def int_truediv_def
      coarse_slider_def round_double_def py_max_def py_min_def fsub_def fadd_def fneg_def
      fmul_def fsgn_def fdiv_def Let_def)

text \<open>
  C6, amended, in two parts.

  For every slider with a maximum above its minimum, a positive width and a positive
  finite step, and every mouse position, \<^verbatim>\<open>_updateValueFromMouse\<close> either raises
  \<^verbatim>\<open>ValueError\<close> or \<^verbatim>\<open>OverflowError\<close> (the float arithmetic left the finite numbers) and sets
  nothing, or it returns: then the ratio \<^verbatim>\<open>max(0.0, min(1.0, x / width))\<close> lies between 0
  and 1, \<open>steps\<close> is the integer nearest to the float
  \<^verbatim>\<open>(minimum + ratio * (maximum - minimum)) / singleStep\<close>, and the value the slider
  finally holds is \<^verbatim>\<open>steps * singleStep\<close> rounded by the toolkit to the displayed decimals
  and forced into the range: it lies within [minimum, maximum], but it is the multiple of
  the step only when that multiple lies in the range.

  For a slider like the two the docker builds (a range of whole numbers \<open>lo < hi\<close> between
  0 and \<open>2^31\<close>, a step of 1, a positive width, a mouse position of at most \<open>2^31\<close> in
  magnitude, a toolkit rounding that leaves whole numbers alone) the call always returns,
  and the slider then holds a whole number \<open>n\<close> between \<open>lo\<close> and \<open>hi\<close> that is within
  \<open>1/2 + 2^-20\<close> of the exact linear interpolation
  \<open>lo + clamp(x / width, 0, 1) * (hi - lo)\<close>, the excess over 1/2 being the rounding error
  of the float arithmetic; in particular it holds \<open>lo\<close> at and left of the left edge and
  \<open>hi\<close> at and right of the right edge.
\<close>

theorem updateValueFromMouse_sets_value:
  "(flt (minimum s) (maximum s) \<and> 0 < rect_width s \<and> singleStep s = Finite st \<and> 0 < st
      \<and> (\<forall>v. v \<noteq> NaN \<longrightarrow> Q v \<noteq> NaN)
    \<longrightarrow> (\<exists>e. updateValueFromMouse Q s x = Inl e \<and> (e = ValueError \<or> e = OverflowError))
      \<or> (\<exists>ratio d steps fsteps.
          mouse_ratio s x = Inr ratio \<and> fle (Finite 0) ratio \<and> fle ratio (Finite 1)
        \<and> fdiv (fadd (minimum s) (fmul ratio (fsub (maximum s) (minimum s)))) (Finite st)
            = Inr (Finite d)
        \<and> steps = round_half_even d \<and> \<bar>of_int steps - d\<bar> \<le> 1 / 2
        \<and> int_to_float steps = Inr fsteps
        \<and> updateValueFromMouse Q s x
            = Inr (s\<lparr>held := qt_bound s (Q (fmul fsteps (Finite st)))\<rparr>)
        \<and> fle (minimum s) (qt_bound s (Q (fmul fsteps (Finite st))))
        \<and> fle (qt_bound s (Q (fmul fsteps (Finite st)))) (maximum s)))
   \<and> (minimum s = Finite (of_int lo) \<and> maximum s = Finite (of_int hi)
      \<and> 0 \<le> lo \<and> lo < hi \<and> hi \<le> 2 ^ 31 \<and> singleStep s = Finite 1
      \<and> 0 < rect_width s \<and> \<bar>x\<bar> \<le> 2 ^ 31
      \<and> (\<forall>n. Q (Finite (of_int n)) = Finite (of_int n))
    \<longrightarrow> (\<exists>n. updateValueFromMouse Q s x = Inr (s\<lparr>held := Finite (of_int n)\<rparr>)
        \<and> lo \<le> n \<and> n \<le> hi
        \<and> \<bar>of_int n - (of_int lo
             + max 0 (min 1 (of_int x / of_int (rect_width s))) * of_int (hi - lo))\<bar>
            \<le> (1 / 2 + 1 / 2 ^ 20 :: rat)
        \<and> (x \<le> 0 \<longrightarrow> n = lo) \<and> (rect_width s \<le> x \<longrightarrow> n = hi)))"
proof (intro conjI impI)
  assume a: "flt (minimum s) (maximum s) \<and> 0 < rect_width s \<and> singleStep s = Finite st
      \<and> 0 < st \<and> (\<forall>v. v \<noteq> NaN \<longrightarrow> Q v \<noteq> NaN)"
  then have "flt (minimum s) (maximum s)" "0 < rect_width s" "singleStep s = Finite st"
    "0 < st" "\<forall>v. v \<noteq> NaN \<longrightarrow> Q v \<noteq> NaN" by simp_all
  then show "(\<exists>e. updateValueFromMouse Q s x = Inl e \<and> (e = ValueError \<or> e = OverflowError))
      \<or> (\<exists>ratio d steps fsteps.
          mouse_ratio s x = Inr ratio \<and> fle (Finite 0) ratio \<and> fle ratio (Finite 1)
        \<and> fdiv (fadd (minimum s) (fmul ratio (fsub (maximum s) (minimum s)))) (Finite st)
            = Inr (Finite d)
        \<and> steps = round_half_even d \<and> \<bar>of_int steps - d\<bar> \<le> 1 / 2
        \<and> int_to_float steps = Inr fsteps
        \<and> updateValueFromMouse Q s x
            = Inr (s\<lparr>held := qt_bound s (Q (fmul fsteps (Finite st)))\<rparr>)
        \<and> fle (minimum s) (qt_bound s (Q (fmul fsteps (Finite st))))
        \<and> fle (qt_bound s (Q (fmul fsteps (Finite st)))) (maximum s))"
    by (rule updateValueFromMouse_outcomes)
next
  assume b: "minimum s = Finite (of_int lo) \<and> maximum s = Finite (of_int hi)
      \<and> 0 \<le> lo \<and> lo < hi \<and> hi \<le> 2 ^ 31 \<and> singleStep s = Finite 1
      \<and> 0 < rect_width s \<and> \<bar>x\<bar> \<le> 2 ^ 31
      \<and> (\<forall>n. Q (Finite (of_int n)) = Finite (of_int n))"
  then have h: "minimum s = Finite (of_int lo)" "maximum s = Finite (of_int hi)"
    "0 \<le> lo" "lo < hi" "hi \<le> 2 ^ 31" "singleStep s = Finite 1"
    "0 < rect_width s" "\<bar>x\<bar> \<le> 2 ^ 31"
    "\<forall>n. Q (Finite (of_int n)) = Finite (of_int n)" by simp_all
  from updateValueFromMouse_whole_range[OF h] obtain n where n:
    "updateValueFromMouse Q s x = Inr (s\<lparr>held := Finite (of_int n)\<rparr>)"
    "lo \<le> n" "n \<le> hi"
    "\<bar>of_int n - (of_int lo
         + max 0 (min 1 (of_int x / of_int (rect_width s))) * of_int (hi - lo))\<bar>
      \<le> (1 / 2 + 1 / 2 ^ 20 :: rat)" by blast
  from h(7) have w0: "(0::rat) < of_int (rect_width s)" by simp
  have l: "n = lo" if "x \<le> 0"
  proof -
    from that have "(of_int x :: rat) \<le> 0" by simp
    with w0 have "of_int x / of_int (rect_width s) \<le> (0::rat)"
      by (simp add: divide_le_0_iff)
    then have "max 0 (min 1 (of_int x / of_int (rect_width s))) = (0::rat)" by simp
    with n(4) have "\<bar>of_int n - (of_int lo :: rat)\<bar> \<le> 1 / 2 + 1 / 2 ^ 20" by simp
    then show ?thesis by (rule int_near)
  qed
  have r: "n = hi" if "rect_width s \<le> x"
  proof -
    from that have "(of_int (rect_width s) :: rat) \<le> of_int x" by (subst of_int_le_iff)
    with w0 have "(1::rat) \<le> of_int x / of_int (rect_width s)" by (simp add: le_divide_eq)
    then have "max 0 (min 1 (of_int x / of_int (rect_width s))) = (1::rat)" by simp
    with n(4) have "\<bar>of_int n - (of_int lo + of_int (hi - lo) :: rat)\<bar> \<le> 1 / 2 + 1 / 2 ^ 20"
      by simp
    moreover have "(of_int lo + of_int (hi - lo) :: rat) = of_int hi" by simp
    ultimately have "\<bar>of_int n - (of_int hi :: rat)\<bar> \<le> 1 / 2 + 1 / 2 ^ 20" by (simp only:)
    then show ?thesis by (rule int_near)
  qed
  from n l r show "\<exists>n. updateValueFromMouse Q s x = Inr (s\<lparr>held := Finite (of_int n)\<rparr>)
        \<and> lo \<le> n \<and> n \<le> hi
        \<and> \<bar>of_int n - (of_int lo
             + max 0 (min 1 (of_int x / of_int (rect_width s))) * of_int (hi - lo))\<bar>
            \<le> (1 / 2 + 1 / 2 ^ 20 :: rat)
        \<and> (x \<le> 0 \<longrightarrow> n = lo) \<and> (rect_width s \<le> x \<longrightarrow> n = hi)" by blast
qed

theorem updateValueFromMouse_sets_value_witness:
  "updateValueFromMouse (\<lambda>v. v) (hardness_slider example_docker) 50
     = Inr ((hardness_slider example_docker)\<lparr>held := Finite 25\<rparr>)
   \<and> updateValueFromMouse (\<lambda>v. v) (hardness_slider example_docker) 260
     = Inr ((hardness_slider example_docker)\<lparr>held := Finite 100\<rparr>)
   \<and> fle (minimum (hardness_slider example_docker)) (Finite 25)
   \<and> fle (Finite 25) (maximum (hardness_slider example_docker))"
proof -
  let ?s = "hardness_slider example_docker"
  have s: "minimum ?s = Finite (of_int 0)" "maximum ?s = Finite (of_int 100)"
    "singleStep ?s = Finite 1" "rect_width ?s = 200"
    by (simp_all add: example_docker_def)
  have g: "flt (minimum ?s) (maximum ?s)" by (simp add: example_docker_def)
  note t50 = updateValueFromMouse_sets_value[of ?s 1 "\<lambda>v. v" 50 0 100]
  note t260 = updateValueFromMouse_sets_value[of ?s 1 "\<lambda>v. v" 260 0 100]
  from t50 s obtain n where n:
    "updateValueFromMouse (\<lambda>v. v) ?s 50 = Inr (?s\<lparr>held := Finite (of_int n)\<rparr>)"
    "\<bar>of_int n - (of_int 0 + max 0 (min 1 (of_int 50 / of_int 200)) * of_int (100 - 0))\<bar>
      \<le> (1 / 2 + 1 / 2 ^ 20 :: rat)"
    by auto
  have "(of_int 0 + max 0 (min 1 (of_int 50 / of_int 200)) * of_int (100 - 0) :: rat) = of_int 25"
    by simp
  with n(2) have "\<bar>of_int n - (of_int 25 :: rat)\<bar> \<le> 1 / 2 + 1 / 2 ^ 20" by (simp only:)
  then have "n = 25" by (rule int_near)
  with n(1) have a: "updateValueFromMouse (\<lambda>v. v) ?s 50 = Inr (?s\<lparr>held := Finite 25\<rparr>)"
    by simp
  from t260 s have b: "updateValueFromMouse (\<lambda>v. v) ?s 260 = Inr (?s\<lparr>held := Finite 100\<rparr>)"
    by auto
  have p: "flt (minimum ?s) (maximum ?s) \<and> 0 < rect_width ?s \<and> singleStep ?s = Finite 1
      \<and> (0::rat) < 1 \<and> (\<forall>v. v \<noteq> NaN \<longrightarrow> v \<noteq> NaN)"
    by (simp add: example_docker_def)
  from t50 p
  have "(\<exists>e. updateValueFromMouse (\<lambda>v. v) ?s 50 = Inl e)
      \<or> (\<exists>f. updateValueFromMouse (\<lambda>v. v) ?s 50 = Inr (?s\<lparr>held := qt_bound ?s f\<rparr>)
            \<and> fle (minimum ?s) (qt_bound ?s f) \<and> fle (qt_bound ?s f) (maximum ?s))"
    by blast
  then obtain f where f: "?s\<lparr>held := qt_bound ?s f\<rparr> = ?s\<lparr>held := Finite 25\<rparr>"
    "fle (minimum ?s) (qt_bound ?s f)" "fle (qt_bound ?s f) (maximum ?s)"
    by (auto simp: a)
  from f(1) have "held (?s\<lparr>held := qt_bound ?s f\<rparr>) = held (?s\<lparr>held := Finite 25\<rparr>)"
    by (rule arg_cong)
  then have "qt_bound ?s f = Finite 25" by simp
  with f(2,3) have c: "fle (minimum ?s) (Finite 25) \<and> fle (Finite 25) (maximum ?s)" by simp
  from a b c show ?thesis by simp
qed

end
